theory Spec2Isabelle
  imports Main
begin

section \<open>The URL shortener of \<^verbatim>\<open>src/backend/server.js\<close>\<close>

text \<open>
  The service keeps two JavaScript objects, \<^verbatim>\<open>urls\<close> and \<^verbatim>\<open>clicks\<close>, both created as
  \<^verbatim>\<open>{}\<close>, and three request handlers work on them: \<^verbatim>\<open>POST /shorturls\<close> (create),
  \<^verbatim>\<open>GET /shorturls/:shortcode\<close> (resolve) and \<^verbatim>\<open>GET /shorturls/:shortcode/stats\<close> (stats).
  Each handler is a function from the request's inputs and the store to a response and
  the new store. What a handler reads from its environment is an argument of the model:
  every \<^verbatim>\<open>new Date()\<close> is one clock reading, every \<^verbatim>\<open>Math.random()\<close> one draw, the
  host's time zone is a pair of offset functions, and \<^verbatim>\<open>validUrl.isUri\<close> (the npm package
  \<^verbatim>\<open>valid-url\<close>) is a function from JSON values to what its call does. The body fields
  \<^verbatim>\<open>url\<close> and \<^verbatim>\<open>validity\<close> are JSON values. The field \<^verbatim>\<open>shortcode\<close> is absent or the string
  that the regular expression test, the property lookup and the link template all convert
  it to (its falsy values \<^verbatim>\<open>null\<close>, \<^verbatim>\<open>false\<close> and \<^verbatim>\<open>0\<close> count as absent); the referrer
  header is a string or absent.
  \<^verbatim>\<open>await Log(...)\<close> posts to a remote sink and swallows every failure
  (\<^verbatim>\<open>src/LoggingMiddleware.js\<close>); it neither reads nor writes the store, and only the
  place where a handler awaits it matters (see the requests in flight below).
\<close>

subsection \<open>Values\<close>

text \<open>A \<^verbatim>\<open>Date\<close> is its time value in milliseconds since the epoch, or \<^verbatim>\<open>Invalid Date\<close> (NaN).\<close>

type_synonym time = int

datatype jsdate = Valid time | Invalid

text \<open>
  The JSON value of a body field. A number is either integral (\<^verbatim>\<open>Number.isInteger\<close>
  holds) or not; \<open>JObject\<close> is an object or an array; \<open>JUndefined\<close> is the absent field.
\<close>

datatype jsval = JUndefined | JNull | JBool bool | JInt int | JNonInt | JStr string | JObject

text \<open>
  Truthiness, as \<^verbatim>\<open>!url\<close> tests it: \<^verbatim>\<open>undefined\<close>, \<^verbatim>\<open>null\<close>, \<^verbatim>\<open>false\<close>, \<^verbatim>\<open>0\<close> and the
  empty string are falsy. (JSON has no NaN, and a number that is not integral is not 0.)
\<close>

fun jtruthy :: "jsval \<Rightarrow> bool" where
  "jtruthy JUndefined = False"
| "jtruthy JNull = False"
| "jtruthy (JBool b) = b"
| "jtruthy (JInt n) = (n \<noteq> 0)"
| "jtruthy JNonInt = True"
| "jtruthy (JStr s) = (s \<noteq> [])"
| "jtruthy JObject = True"

text \<open>The object stored under \<^verbatim>\<open>urls[shortCode]\<close>; \<open>clicks_count\<close> is its field \<^verbatim>\<open>clicks\<close>.\<close>

record entry =
  url :: jsval
  createdAt :: time
  expiry :: jsdate
  clicks_count :: nat

text \<open>One element of \<^verbatim>\<open>clicks[shortcode]\<close>. The timestamp is the ISO rendering of a clock reading.\<close>

record click =
  timestamp :: time
  referrer :: "string option"
  ip :: string

text \<open>The own properties of the two objects.\<close>

record store =
  urls :: "string \<rightharpoonup> entry"
  clicks :: "string \<rightharpoonup> click list"

definition initial :: store where
  "initial = \<lparr>urls = Map.empty, clicks = Map.empty\<rparr>"

datatype error = InvalidUrl | InvalidShortcode | ShortcodeConflict | InvalidValidity | NotFound | Expired

datatype exn = TypeError | RangeError

text \<open>
  A handler answers with a value (201, 302 or 200), with one of the error statuses
  (400, 409, 404, 410), or it throws.
\<close>

datatype 'a response = Ok 'a | Failed error | Threw exn

text \<open>
  What a call of \<^verbatim>\<open>validUrl.isUri(url)\<close> does: it returns the value (truthy), it returns
  \<^verbatim>\<open>undefined\<close>, or it throws.
\<close>

datatype verdict = Accepted | Refused | Raised exn

subsection \<open>Property lookup\<close>

text \<open>
  \<^verbatim>\<open>urls\<close> and \<^verbatim>\<open>clicks\<close> are plain objects, so \<^verbatim>\<open>urls[key]\<close> finds an own property or,
  failing that, a property of \<^verbatim>\<open>Object.prototype\<close>: a built-in function (or, for
  \<^verbatim>\<open>__proto__\<close>, the prototype object itself), which is truthy and has none of the fields of
  an entry and no \<^verbatim>\<open>push\<close> or \<^verbatim>\<open>map\<close>. \<open>None\<close> is \<^verbatim>\<open>undefined\<close>.
\<close>

definition objectPrototypeKeys :: "string list" where
  "objectPrototypeKeys =
     [''constructor'', ''hasOwnProperty'', ''isPrototypeOf'', ''propertyIsEnumerable'',
      ''toLocaleString'', ''toString'', ''valueOf'', ''__proto__'', ''__defineGetter__'',
      ''__defineSetter__'', ''__lookupGetter__'', ''__lookupSetter__'']"

datatype 'a slot = Own 'a | Builtin

definition getProp :: "(string \<rightharpoonup> 'a) \<Rightarrow> string \<Rightarrow> 'a slot option" where
  "getProp obj key =
     (case obj key of
        Some v \<Rightarrow> Some (Own v)
      | None \<Rightarrow> if key \<in> set objectPrototypeKeys then Some Builtin else None)"

text \<open>Field reads on what a lookup found; a built-in has no such field (\<^verbatim>\<open>undefined\<close>).\<close>

fun slot_url :: "entry slot \<Rightarrow> jsval option" where
  "slot_url (Own e) = Some (url e)"
| "slot_url Builtin = None"

fun slot_createdAt :: "entry slot \<Rightarrow> time option" where
  "slot_createdAt (Own e) = Some (createdAt e)"
| "slot_createdAt Builtin = None"

fun slot_expiry :: "entry slot \<Rightarrow> jsdate option" where
  "slot_expiry (Own e) = Some (expiry e)"
| "slot_expiry Builtin = None"

fun slot_clicks :: "entry slot \<Rightarrow> nat option" where
  "slot_clicks (Own e) = Some (clicks_count e)"
| "slot_clicks Builtin = None"

text \<open>
  \<^verbatim>\<open>entry.expiry < new Date()\<close>: both sides are converted to numbers, and a comparison
  with NaN (an invalid date, or \<^verbatim>\<open>undefined\<close>) is false.
\<close>

fun date_lt :: "jsdate option \<Rightarrow> time \<Rightarrow> bool" where
  "date_lt (Some (Valid t)) now = (t < now)"
| "date_lt (Some Invalid) now = False"
| "date_lt None now = False"

text \<open>Truthiness of an optional string: \<^verbatim>\<open>undefined\<close> and \<^verbatim>\<open>''\<close> are falsy.\<close>

fun truthy :: "string option \<Rightarrow> bool" where
  "truthy None = False"
| "truthy (Some s) = (s \<noteq> [])"

subsection \<open>Shortcodes\<close>

definition chars :: string where
  "chars = ''abcdefghijklmnopqrstuvwxyzABCDEFGHIJKLMNOPQRSTUVWXYZ0123456789''"

text \<open>
  One draw is the index \<^verbatim>\<open>Math.floor(Math.random() * chars.length)\<close>. \<^verbatim>\<open>chars[i]\<close> past the
  end is \<^verbatim>\<open>undefined\<close>, which \<^verbatim>\<open>join('')\<close> renders as the empty string.
\<close>

definition pick :: "nat \<Rightarrow> string" where
  "pick i = (if i < length chars then [chars ! i] else [])"

definition candidate :: "nat list \<Rightarrow> string" where
  "candidate rs = concat (map pick (take 6 rs))"

text \<open>
  The \<^verbatim>\<open>do ... while (urls[code])\<close> loop. The list holds the draws the generator is going to
  see, six for each candidate; \<open>None\<close> says that the loop is still running when they are
  used up.
\<close>

function generateShortcode :: "(string \<rightharpoonup> entry) \<Rightarrow> nat list \<Rightarrow> string option" where
  "generateShortcode us rs =
     (if length rs < 6 then None
      else if getProp us (candidate rs) \<noteq> None then generateShortcode us (drop 6 rs)
      else Some (candidate rs))"
  by pat_completeness auto
termination
  by (relation "measure (\<lambda>(us, rs). length rs)") auto

declare generateShortcode.simps [simp del]

text \<open>The character class \<^verbatim>\<open>[a-zA-Z0-9]\<close> and the test \<^verbatim>\<open>/^[a-zA-Z0-9]{4,}$/\<close>.\<close>

definition alnum :: "char \<Rightarrow> bool" where
  "alnum c =
     (let n = (of_char c :: nat)
      in (97 \<le> n \<and> n \<le> 122) \<or> (65 \<le> n \<and> n \<le> 90) \<or> (48 \<le> n \<and> n \<le> 57))"

definition isValidShortcode :: "string \<Rightarrow> bool" where
  "isValidShortcode code = (4 \<le> length code \<and> list_all alnum code)"

subsection \<open>Expiry\<close>

text \<open>
  \<^verbatim>\<open>getExpiryDate\<close> reads the clock and calls \<^verbatim>\<open>d.setMinutes(d.getMinutes() + minutes)\<close>,
  which works on the fields of the host's local time. The functions below are those of
  the language definition, on integers (every value here is an integer well inside the
  range in which the arithmetic of a JavaScript number is exact, or makes the date
  invalid).
\<close>

definition msPerDay :: int where
  "msPerDay = 86400000"

definition Day :: "time \<Rightarrow> int" where
  "Day t = t div msPerDay"

definition HourFromTime :: "time \<Rightarrow> int" where
  "HourFromTime t = (t div 3600000) mod 24"

definition MinFromTime :: "time \<Rightarrow> int" where
  "MinFromTime t = (t div 60000) mod 60"

definition SecFromTime :: "time \<Rightarrow> int" where
  "SecFromTime t = (t div 1000) mod 60"

definition msFromTime :: "time \<Rightarrow> int" where
  "msFromTime t = t mod 1000"

definition MakeTime :: "int \<Rightarrow> int \<Rightarrow> int \<Rightarrow> int \<Rightarrow> int" where
  "MakeTime hour minute sec ms = hour * 3600000 + minute * 60000 + sec * 1000 + ms"

definition MakeDate :: "int \<Rightarrow> int \<Rightarrow> time" where
  "MakeDate day tm = day * msPerDay + tm"

text \<open>A time value beyond \<open>8.64e15\<close> in magnitude makes the date invalid.\<close>

definition maxTime :: int where
  "maxTime = 8640000000000000"

definition timeClip :: "int \<Rightarrow> jsdate" where
  "timeClip t = (if \<bar>t\<bar> \<le> maxTime then Valid t else Invalid)"

text \<open>
  The host's time zone. \<open>utcOffset z t\<close> is what local time is ahead of UTC at the instant
  \<open>t\<close>; \<open>localOffset z t'\<close> is the offset with which the local time value \<open>t'\<close> is read
  back as an instant (when the clocks are set back, a local time of the repeated hour is
  read with the offset from before the change). Where the offset never changes the two
  are the same constant.
\<close>

record zone =
  utcOffset :: "time \<Rightarrow> int"
  localOffset :: "time \<Rightarrow> int"

definition LocalTime :: "zone \<Rightarrow> time \<Rightarrow> time" where
  "LocalTime z t = t + utcOffset z t"

definition UTC :: "zone \<Rightarrow> time \<Rightarrow> time" where
  "UTC z t = t - localOffset z t"

definition getMinutes :: "zone \<Rightarrow> time \<Rightarrow> int" where
  "getMinutes z t = MinFromTime (LocalTime z t)"

definition setMinutes :: "zone \<Rightarrow> time \<Rightarrow> int \<Rightarrow> jsdate" where
  "setMinutes z t minute =
     (let t' = LocalTime z t
      in timeClip (UTC z (MakeDate (Day t')
                            (MakeTime (HourFromTime t') minute (SecFromTime t') (msFromTime t')))))"

definition getExpiryDate :: "zone \<Rightarrow> time \<Rightarrow> int \<Rightarrow> jsdate" where
  "getExpiryDate z now minutes = setMinutes z now (getMinutes z now + minutes)"

subsection \<open>Create\<close>

definition HOSTNAME :: string where
  "HOSTNAME = ''http://localhost:4000''"

record created =
  shortLink :: string
  expiryISO :: time

text \<open>
  Lines 44 to 57: a truthy \<^verbatim>\<open>shortcode\<close> is validated and looked up, anything else (absent or
  the empty string) asks the generator. \<open>None\<close>: the generator has not returned.
\<close>

definition chooseShortcode ::
  "string option \<Rightarrow> nat list \<Rightarrow> (string \<rightharpoonup> entry) \<Rightarrow> (error + string) option" where
  "chooseShortcode shortcode draws us =
     (case shortcode of
        None \<Rightarrow> map_option Inr (generateShortcode us draws)
      | Some c \<Rightarrow>
          if c = [] then map_option Inr (generateShortcode us draws)
          else if \<not> isValidShortcode c then Some (Inl InvalidShortcode)
          else if getProp us c \<noteq> None then Some (Inl ShortcodeConflict)
          else Some (Inr c))"

text \<open>
  Lines 58 to 65: \<^verbatim>\<open>validity !== undefined\<close>, then
  \<^verbatim>\<open>!Number.isInteger(validity) || validity < 1\<close>.
\<close>

fun chooseDuration :: "jsval \<Rightarrow> error + int" where
  "chooseDuration JUndefined = Inr 30"
| "chooseDuration (JInt n) = (if n < 1 then Inl InvalidValidity else Inr n)"
| "chooseDuration v = Inl InvalidValidity"

text \<open>
  The handler. Line 40 is \<^verbatim>\<open>!url || !validUrl.isUri(url)\<close>: the validator is called on
  every truthy value, a string or not, and what it throws leaves the handler.
  \<open>now1\<close> is the clock reading inside \<^verbatim>\<open>getExpiryDate\<close>, \<open>now2\<close> the later
  one of \<^verbatim>\<open>createdAt: new Date()\<close>. The entry and its empty click list are stored before
  the response is built, and \<^verbatim>\<open>expiryDate.toISOString()\<close> throws a RangeError on an invalid
  date. The inserted key is alphanumeric or made of \<open>chars\<close>, so the assignment always
  creates an own property.
\<close>

definition create ::
  "zone \<Rightarrow> (jsval \<Rightarrow> verdict) \<Rightarrow> jsval \<Rightarrow> jsval \<Rightarrow> string option \<Rightarrow> nat list \<Rightarrow> time \<Rightarrow> time
     \<Rightarrow> store \<Rightarrow> (created response \<times> store) option" where
  "create z isUri u validity shortcode draws now1 now2 s =
     (if \<not> jtruthy u then Some (Failed InvalidUrl, s)
      else
        (case isUri u of
           Raised x \<Rightarrow> Some (Threw x, s)
         | Refused \<Rightarrow> Some (Failed InvalidUrl, s)
         | Accepted \<Rightarrow>
            (case chooseShortcode shortcode draws (urls s) of
               None \<Rightarrow> None
             | Some (Inl e) \<Rightarrow> Some (Failed e, s)
             | Some (Inr shortCode) \<Rightarrow>
                 (case chooseDuration validity of
                    Inl e \<Rightarrow> Some (Failed e, s)
                  | Inr duration \<Rightarrow>
                      let expiryDate = getExpiryDate z now1 duration;
                          s' = s\<lparr>urls := (urls s)(shortCode \<mapsto>
                                       \<lparr>url = u, createdAt = now2, expiry = expiryDate,
                                        clicks_count = 0\<rparr>),
                                 clicks := (clicks s)(shortCode \<mapsto> [])\<rparr>
                      in Some (case expiryDate of
                                 Valid t \<Rightarrow>
                                   Ok \<lparr>shortLink = HOSTNAME @ ''/shorturls/'' @ shortCode,
                                       expiryISO = t\<rparr>
                               | Invalid \<Rightarrow> Threw RangeError,
                               s')))))"

subsection \<open>Resolve\<close>

text \<open>\<^verbatim>\<open>req.get('referrer') || null\<close>: an absent or empty header is recorded as \<^verbatim>\<open>null\<close>.\<close>

fun orNull :: "string option \<Rightarrow> string option" where
  "orNull None = None"
| "orNull (Some r) = (if r = [] then None else Some r)"

text \<open>
  \<^verbatim>\<open>entry.clicks++\<close>: on an entry of the store the counter goes up; on a built-in the write
  lands on that built-in object and the store is as before.
\<close>

fun bump :: "string \<Rightarrow> entry slot \<Rightarrow> store \<Rightarrow> store" where
  "bump key (Own e) s = s\<lparr>urls := (urls s)(key \<mapsto> e\<lparr>clicks_count := clicks_count e + 1\<rparr>)\<rparr>"
| "bump key Builtin s = s"

text \<open>
  The handler. \<open>now1\<close> is the clock reading of the expiry test, \<open>now2\<close> the one of the
  click's timestamp. \<^verbatim>\<open>clicks[shortcode].push\<close> throws a TypeError unless the lookup finds
  an array of the store; by then the counter has been written. The redirect goes to
  \<^verbatim>\<open>entry.url\<close>.
\<close>

definition resolve ::
  "string \<Rightarrow> string option \<Rightarrow> string \<Rightarrow> time \<Rightarrow> time \<Rightarrow> store
     \<Rightarrow> jsval option response \<times> store" where
  "resolve shortcode referrer_hdr req_ip now1 now2 s =
     (case getProp (urls s) shortcode of
        None \<Rightarrow> (Failed NotFound, s)
      | Some e \<Rightarrow>
          if date_lt (slot_expiry e) now1 then (Failed Expired, s)
          else
            let s1 = bump shortcode e s
            in (case getProp (clicks s1) shortcode of
                  Some (Own evs) \<Rightarrow>
                    (Ok (slot_url e),
                     s1\<lparr>clicks := (clicks s1)(shortcode \<mapsto>
                          evs @ [\<lparr>timestamp = now2, referrer = orNull referrer_hdr,
                                  ip = req_ip\<rparr>])\<rparr>)
                | Some Builtin \<Rightarrow> (Threw TypeError, s1)
                | None \<Rightarrow> (Threw TypeError, s1)))"

subsection \<open>Stats\<close>

record summary =
  shortcode :: string
  originalUrl :: "jsval option"
  createdAt_s :: "time option"
  expiry_s :: "jsdate option"
  totalClicks :: "nat option"
  clickDetails :: "click list"

text \<open>
  \<^verbatim>\<open>clicks[shortcode] || []\<close>, then \<^verbatim>\<open>allClicks.map\<close>, which only an array has. The
  handler assigns nothing; it returns the store so that this can be stated.
\<close>

definition stats :: "string \<Rightarrow> store \<Rightarrow> summary response \<times> store" where
  "stats code s =
     (case getProp (urls s) code of
        None \<Rightarrow> (Failed NotFound, s)
      | Some e \<Rightarrow>
          (case getProp (clicks s) code of
             Some Builtin \<Rightarrow> (Threw TypeError, s)
           | allClicks \<Rightarrow>
               (Ok \<lparr>shortcode = code, originalUrl = slot_url e, createdAt_s = slot_createdAt e,
                    expiry_s = slot_expiry e, totalClicks = slot_clicks e,
                    clickDetails = (case allClicks of Some (Own evs) \<Rightarrow> evs | _ \<Rightarrow> [])\<rparr>,
                s)))"

subsection \<open>Runs of the service\<close>

text \<open>
  The stores the service can be in: the empty one it starts with, and every store a
  handler leaves behind, whatever it answered. A create that never returns leaves none.
\<close>

inductive reachable :: "store \<Rightarrow> bool" where
  reach_initial: "reachable initial"
| reach_create:
    "reachable s \<Longrightarrow> create z isUri u validity c draws now1 now2 s = Some (r, s')
       \<Longrightarrow> reachable s'"
| reach_resolve: "reachable s \<Longrightarrow> resolve k ref a now1 now2 s = (r, s') \<Longrightarrow> reachable s'"
| reach_stats: "reachable s \<Longrightarrow> stats k s = (r, s') \<Longrightarrow> reachable s'"

text \<open>Every entry has a click list, as long as its counter says.\<close>

definition consistent :: "store \<Rightarrow> bool" where
  "consistent s =
     (\<forall>k e. urls s k = Some e \<longrightarrow> map_option length (clicks s k) = Some (clicks_count e))"

text \<open>
  A visit is what one redirect request brings: the referrer header, the requester's
  address, and the two clock readings of the handler. \<open>resolve_all\<close> serves a list of
  visits to one shortcode, one after the other.
\<close>

type_synonym visit = "string option \<times> string \<times> time \<times> time"

fun click_of :: "visit \<Rightarrow> click" where
  "click_of (ref, a, now1, now2) = \<lparr>timestamp = now2, referrer = orNull ref, ip = a\<rparr>"

fun checked_at :: "visit \<Rightarrow> time" where
  "checked_at (ref, a, now1, now2) = now1"

fun resolve_all :: "string \<Rightarrow> visit list \<Rightarrow> store \<Rightarrow> jsval option response list \<times> store" where
  "resolve_all k [] s = ([], s)"
| "resolve_all k ((ref, a, now1, now2) # vs) s =
     (case resolve k ref a now1 now2 s of
        (r, s1) \<Rightarrow> (case resolve_all k vs s1 of (rs, s2) \<Rightarrow> (r # rs, s2)))"

text \<open>
  The minutes a create adds to its clock reading: the \<^verbatim>\<open>validity\<close> field when it passed
  the test of lines 59 to 65, the default \<^verbatim>\<open>let duration = 30\<close> when the field is absent.
\<close>

fun minutes_of :: "jsval \<Rightarrow> int" where
  "minutes_of (JInt n) = n"
| "minutes_of v = 30"

subsection \<open>Requests in flight\<close>

text \<open>
  Node runs one piece of JavaScript at a time, and a handler, being an \<^verbatim>\<open>async\<close> function,
  hands over only where it awaits. On every path of the create and resolve handlers the
  one \<^verbatim>\<open>await\<close> is the \<^verbatim>\<open>await Log(...)\<close> that follows the last access to \<^verbatim>\<open>urls\<close> and
  \<^verbatim>\<open>clicks\<close>; after it the handler only sends the response, whose content is fixed by
  then (a status and message, the link and \<^verbatim>\<open>expiryDate\<close>, or \<^verbatim>\<open>entry.url\<close>, which no
  statement assigns after the insert). So a request in flight has arrived, or has run
  up to its await, or is answered, and a turn of the event loop moves one request one
  phase on. A schedule lists whose turn it is; \<open>None\<close> is a create whose generator
  never returns, which keeps the loop for good.
\<close>

datatype request =
    Create zone "jsval \<Rightarrow> verdict" jsval jsval "string option" "nat list" time time
  | Resolve string "string option" string time time

datatype reply = Created "created response" | Resolved "jsval option response"

datatype task = Arrived request | Awaiting reply | Answered reply

fun start :: "request \<Rightarrow> store \<Rightarrow> (reply \<times> store) option" where
  "start (Create z isUri u validity c draws now1 now2) s =
     (case create z isUri u validity c draws now1 now2 s of
        None \<Rightarrow> None
      | Some (r, s') \<Rightarrow> Some (Created r, s'))"
| "start (Resolve k ref a now1 now2) s =
     (case resolve k ref a now1 now2 s of (r, s') \<Rightarrow> Some (Resolved r, s'))"

fun advance :: "task \<Rightarrow> store \<Rightarrow> (task \<times> store) option" where
  "advance (Arrived q) s =
     (case start q s of None \<Rightarrow> None | Some (r, s') \<Rightarrow> Some (Awaiting r, s'))"
| "advance (Awaiting r) s = Some (Answered r, s)"
| "advance (Answered r) s = Some (Answered r, s)"

fun turn :: "nat \<Rightarrow> task list \<times> store \<Rightarrow> (task list \<times> store) option" where
  "turn i (ts, s) =
     (if i < length ts
      then (case advance (ts ! i) s of None \<Rightarrow> None | Some (t, s') \<Rightarrow> Some (ts[i := t], s'))
      else Some (ts, s))"

fun run :: "nat list \<Rightarrow> task list \<times> store \<Rightarrow> (task list \<times> store) option" where
  "run [] cfg = Some cfg"
| "run (i # sched) cfg = (case turn i cfg of None \<Rightarrow> None | Some cfg' \<Rightarrow> run sched cfg')"

text \<open>
  Requests served one after the other, each to completion. \<open>hits k x qs\<close> lists the
  clicks of those resolves of \<open>k\<close> among \<open>qs\<close> whose clock reading is not past the expiry
  \<open>x\<close>, in the order of the requests.
\<close>

fun serve :: "request list \<Rightarrow> store \<Rightarrow> (reply list \<times> store) option" where
  "serve [] s = Some ([], s)"
| "serve (q # qs) s =
     (case start q s of
        None \<Rightarrow> None
      | Some (r, s1) \<Rightarrow>
          (case serve qs s1 of None \<Rightarrow> None | Some (rs, s2) \<Rightarrow> Some (r # rs, s2)))"

fun hits :: "string \<Rightarrow> jsdate \<Rightarrow> request list \<Rightarrow> click list" where
  "hits k x [] = []"
| "hits k x (Create z isUri u validity c draws now1 now2 # qs) = hits k x qs"
| "hits k x (Resolve k' ref a now1 now2 # qs) =
     (if k' = k \<and> \<not> date_lt (Some x) now1
      then click_of (ref, a, now1, now2) # hits k x qs
      else hits k x qs)"

text \<open>Two requests served one after the other, the first to completion before the second.\<close>

definition serial :: "request \<Rightarrow> request \<Rightarrow> store \<Rightarrow> (reply \<times> reply \<times> store) option" where
  "serial q1 q2 s =
     (case start q1 s of
        None \<Rightarrow> None
      | Some (r1, s1) \<Rightarrow>
          (case start q2 s1 of None \<Rightarrow> None | Some (r2, s2) \<Rightarrow> Some (r1, r2, s2)))"

text \<open>
  Where two requests \<open>q1\<close> and \<open>q2\<close> that arrived at store \<open>s\<close> can be: neither has run,
  one has run up to its await (or is answered) while the other waits, or both have, in
  one of the two orders.
\<close>

definition began :: "reply \<Rightarrow> task \<Rightarrow> bool" where
  "began r t = (t = Awaiting r \<or> t = Answered r)"

definition in_flight :: "request \<Rightarrow> request \<Rightarrow> store \<Rightarrow> task list \<times> store \<Rightarrow> bool" where
  "in_flight q1 q2 s cfg =
     (\<exists>t1 t2 st. cfg = ([t1, t2], st) \<and>
        ((t1 = Arrived q1 \<and> t2 = Arrived q2 \<and> st = s)
         \<or> (\<exists>r1. start q1 s = Some (r1, st) \<and> began r1 t1 \<and> t2 = Arrived q2)
         \<or> (\<exists>r2. start q2 s = Some (r2, st) \<and> t1 = Arrived q1 \<and> began r2 t2)
         \<or> (\<exists>r1 r2. serial q1 q2 s = Some (r1, r2, st) \<and> began r1 t1 \<and> began r2 t2)
         \<or> (\<exists>r1 r2. serial q2 q1 s = Some (r2, r1, st) \<and> began r1 t1 \<and> began r2 t2)))"

subsection \<open>Samples\<close>

definition sample_url :: string where
  "sample_url = ''https://example.com/page''"

text \<open>
  A stand-in for \<^verbatim>\<open>validUrl.isUri\<close> in the examples: it accepts the sample url and refuses
  every other string; on a value that is not a string it throws the TypeError of the
  package's \<^verbatim>\<open>value.match(...)\<close>, which only a string has.
\<close>

fun sample_isUri :: "jsval \<Rightarrow> verdict" where
  "sample_isUri (JStr link) = (if link = sample_url then Accepted else Refused)"
| "sample_isUri v = Raised TypeError"

text \<open>
  Two zones: UTC, and the zone of New York around 2 November 2025, when at 06:00 UTC the
  clocks go back from 02:00 (four hours behind UTC) to 01:00 (five hours behind).
\<close>

definition utc :: zone where
  "utc = \<lparr>utcOffset = (\<lambda>t. 0), localOffset = (\<lambda>t. 0)\<rparr>"

definition new_york :: zone where
  "new_york =
     \<lparr>utcOffset = (\<lambda>t. if t < 1762063200000 then - 14400000 else - 18000000),
      localOffset = (\<lambda>t. if t < 1762048800000 then - 14400000 else - 18000000)\<rparr>"

text \<open>
  The store after \<^verbatim>\<open>{url: "https://example.com/page", shortcode: "abc123", validity: 1}\<close>
  was posted to the empty service, on a host in UTC, at time 0.
\<close>

definition sample_entry :: entry where
  "sample_entry = \<lparr>url = JStr sample_url, createdAt = 0, expiry = Valid 60000, clicks_count = 0\<rparr>"

definition sample_store :: store where
  "sample_store = \<lparr>urls = [''abc123'' \<mapsto> sample_entry], clicks = [''abc123'' \<mapsto> []]\<rparr>"

section \<open>Properties\<close>

subsection \<open>Moving the minutes field\<close>

lemma fields_of_time:
  "MakeDate (Day t) (MakeTime (HourFromTime t) (MinFromTime t) (SecFromTime t) (msFromTime t)) = t"
proof -
  define s where "s = t div 1000"
  define m where "m = s div 60"
  define h where "h = m div 60"
  have m': "t div 60000 = m"
    using zdiv_zmult2_eq [of 60 t 1000] by (simp add: m_def s_def)
  have h': "t div 3600000 = h"
    using zdiv_zmult2_eq [of 60 t 60000] m' by (simp add: h_def)
  have d': "t div 86400000 = h div 24"
    using zdiv_zmult2_eq [of 24 t 3600000] h' by simp
  have "t = s * 1000 + t mod 1000" by (simp add: s_def)
  moreover have "s = m * 60 + s mod 60" by (simp add: m_def)
  moreover have "m = h * 60 + m mod 60" by (simp add: h_def)
  moreover have "h = (h div 24) * 24 + h mod 24" by simp
  ultimately have "t = (h div 24) * 86400000 + (h mod 24) * 3600000 + (m mod 60) * 60000
                       + (s mod 60) * 1000 + t mod 1000"
    by algebra
  then show ?thesis
    by (simp add: MakeDate_def MakeTime_def Day_def HourFromTime_def MinFromTime_def
        SecFromTime_def msFromTime_def msPerDay_def m' h' d' s_def [symmetric])
qed

lemma move_minutes:
  "MakeDate (Day t) (MakeTime (HourFromTime t) (MinFromTime t + n) (SecFromTime t) (msFromTime t))
     = t + n * 60000"
proof -
  have "MakeDate (Day t) (MakeTime (HourFromTime t) (MinFromTime t + n) (SecFromTime t) (msFromTime t))
          = MakeDate (Day t) (MakeTime (HourFromTime t) (MinFromTime t) (SecFromTime t) (msFromTime t))
            + n * 60000"
    by (simp add: MakeDate_def MakeTime_def algebra_simps)
  then show ?thesis by (simp add: fields_of_time)
qed

text \<open>
  In local time the expiry is the reading plus the minutes; as an instant it is that local
  time read back with the offset of its own moment.
\<close>

lemma getExpiryDate_local:
  "getExpiryDate z now minutes =
     timeClip (now + utcOffset z now + minutes * 60000
               - localOffset z (now + utcOffset z now + minutes * 60000))"
  by (simp add: getExpiryDate_def setMinutes_def getMinutes_def LocalTime_def UTC_def
      move_minutes Let_def)

lemma getExpiryDate_steady:
  assumes "localOffset z (now + utcOffset z now + minutes * 60000) = utcOffset z now"
  shows "getExpiryDate z now minutes = timeClip (now + minutes * 60000)"
  using assms by (simp add: getExpiryDate_local)

lemma getExpiryDate_utc: "getExpiryDate utc now minutes = timeClip (now + minutes * 60000)"
  by (simp add: getExpiryDate_local utc_def)

subsection \<open>Lookup\<close>

lemma getProp_own: "obj k = Some v \<Longrightarrow> getProp obj k = Some (Own v)"
  by (simp add: getProp_def)

lemma getProp_None_iff:
  "getProp obj k = None \<longleftrightarrow> obj k = None \<and> k \<notin> set objectPrototypeKeys"
  by (simp add: getProp_def split: option.splits)

subsection \<open>The counter and the click list move together\<close>

lemma consistent_initial: "consistent initial"
  by (simp add: consistent_def initial_def)

lemma create_cases:
  assumes "create z isUri u validity c draws now1 now2 s = Some (r, s')"
  shows "s' = s \<or>
         (\<exists>code link d.
            s' = s\<lparr>urls := (urls s)(code \<mapsto>
                       \<lparr>url = link, createdAt = now2, expiry = getExpiryDate z now1 d,
                        clicks_count = 0\<rparr>),
                   clicks := (clicks s)(code \<mapsto> [])\<rparr>)"
  using assms
  by (auto simp: create_def Let_def split: option.splits sum.splits if_splits verdict.splits)

lemma create_consistent:
  assumes "consistent s" and "create z isUri u validity c draws now1 now2 s = Some (r, s')"
  shows "consistent s'"
  using create_cases [OF assms(2)] assms(1)
  by (auto simp: consistent_def)

lemma resolve_consistent:
  assumes "consistent s"
  shows "consistent (snd (resolve k ref a now1 now2 s))"
proof (cases "urls s k")
  case None
  then show ?thesis using assms
    by (auto simp: resolve_def getProp_def consistent_def Let_def split: option.splits slot.splits)
next
  case (Some e)
  with assms obtain evs where "clicks s k = Some evs" "length evs = clicks_count e"
    by (auto simp: consistent_def)
  with Some assms show ?thesis
    by (auto simp: resolve_def getProp_def consistent_def Let_def)
qed

lemma stats_store: "snd (stats k s) = s"
  by (simp add: stats_def split: option.splits slot.splits)

lemma reachable_consistent: "reachable s \<Longrightarrow> consistent s"
proof (induction rule: reachable.induct)
  case reach_initial
  show ?case by (rule consistent_initial)
next
  case (reach_create s z isUri u validity c draws now1 now2 r s')
  then show ?case by (blast intro: create_consistent)
next
  case (reach_resolve s k ref a now1 now2 r s')
  from resolve_consistent [OF reach_resolve.IH, of k ref a now1 now2] reach_resolve.hyps(2)
  show ?case by simp
next
  case (reach_stats s k r s')
  from stats_store [of k s] reach_stats show ?case by simp
qed

lemma reachable_ledger:
  assumes "reachable s" and "urls s k = Some e"
  obtains evs where "clicks s k = Some evs" and "length evs = clicks_count e"
  using reachable_consistent [OF assms(1)] assms(2) by (auto simp: consistent_def)

subsection \<open>The sample store is reachable\<close>

lemma sample_create:
  "create utc sample_isUri (JStr sample_url) (JInt 1) (Some ''abc123'') [] 0 0 initial =
     Some (Ok \<lparr>shortLink = ''http://localhost:4000/shorturls/abc123'', expiryISO = 60000\<rparr>,
           sample_store)"
  by (simp add: create_def chooseShortcode_def isValidShortcode_def alnum_def getProp_def
      objectPrototypeKeys_def getExpiryDate_utc timeClip_def maxTime_def HOSTNAME_def
      initial_def sample_store_def sample_entry_def sample_url_def)

lemma sample_reachable: "reachable sample_store"
  by (rule reach_create [OF reach_initial sample_create])

subsection \<open>Resolve on an entry of the store\<close>

lemma resolve_expired:
  assumes "urls s k = Some e" and "date_lt (Some (expiry e)) now1"
  shows "resolve k ref a now1 now2 s = (Failed Expired, s)"
  using assms by (simp add: resolve_def getProp_own)

lemma resolve_live:
  assumes "urls s k = Some e" and "clicks s k = Some evs"
    and "\<not> date_lt (Some (expiry e)) now1"
  shows "resolve k ref a now1 now2 s =
           (Ok (Some (url e)),
            s\<lparr>urls := (urls s)(k \<mapsto> e\<lparr>clicks_count := clicks_count e + 1\<rparr>),
              clicks := (clicks s)(k \<mapsto> evs @ [click_of (ref, a, now1, now2)])\<rparr>)"
  using assms by (simp add: resolve_def getProp_own Let_def)

text \<open>
  C3. When the entry of a shortcode exists and its expiry lies before the clock reading
  of the request, resolve answers Expired and returns the store it was given: the entry
  is still there, its counter is what it was, and the click list has not grown.
\<close>

theorem resolve_after_expiry:
  assumes "urls s k = Some e" and "expiry e = Valid t" and "t < now1"
  shows "resolve k ref a now1 now2 s = (Failed Expired, s)"
  using assms by (simp add: resolve_expired)

theorem resolve_after_expiry_witness:
  "urls sample_store ''abc123'' = Some sample_entry \<and> expiry sample_entry = Valid 60000
   \<and> (60000 :: int) < 60001
   \<and> resolve ''abc123'' None ''203.0.113.7'' 60001 60002 sample_store
       = (Failed Expired, sample_store)"
proof -
  have h1: "urls sample_store ''abc123'' = Some sample_entry"
    by (simp add: sample_store_def)
  have h2: "expiry sample_entry = Valid 60000"
    by (simp add: sample_entry_def)
  have h3: "(60000 :: int) < 60001" by simp
  from resolve_after_expiry [OF h1 h2 h3] h1 h2 h3 show ?thesis by simp
qed

text \<open>
  C10. For an entry of a reachable store, resolve answers Expired exactly when the expiry
  is a valid date strictly before the clock reading of the test
  (\<^verbatim>\<open>entry.expiry < new Date()\<close>). When the reading equals the expiry the request is
  served: the counter goes up by one and one click is appended.
\<close>

theorem resolve_expired_iff:
  assumes "reachable s" and "urls s k = Some e"
  shows "(fst (resolve k ref a now1 now2 s) = Failed Expired) = (\<exists>t. expiry e = Valid t \<and> t < now1)
         \<and> (expiry e = Valid now1 \<longrightarrow>
              (\<exists>evs. clicks s k = Some evs \<and>
                 resolve k ref a now1 now2 s =
                   (Ok (Some (url e)),
                    s\<lparr>urls := (urls s)(k \<mapsto> e\<lparr>clicks_count := clicks_count e + 1\<rparr>),
                      clicks := (clicks s)(k \<mapsto>
                        evs @ [\<lparr>timestamp = now2, referrer = orNull ref, ip = a\<rparr>])\<rparr>)))"
proof -
  from assms obtain evs where evs: "clicks s k = Some evs" "length evs = clicks_count e"
    by (rule reachable_ledger)
  have lt: "date_lt (Some (expiry e)) now1 = (\<exists>t. expiry e = Valid t \<and> t < now1)"
    by (cases "expiry e") simp_all
  have "(fst (resolve k ref a now1 now2 s) = Failed Expired) = date_lt (Some (expiry e)) now1"
  proof (cases "date_lt (Some (expiry e)) now1")
    case True
    with resolve_expired [OF assms(2) True] show ?thesis by simp
  next
    case False
    with resolve_live [OF assms(2) evs(1) False] show ?thesis by simp
  qed
  moreover have "resolve k ref a now1 now2 s =
                   (Ok (Some (url e)),
                    s\<lparr>urls := (urls s)(k \<mapsto> e\<lparr>clicks_count := clicks_count e + 1\<rparr>),
                      clicks := (clicks s)(k \<mapsto>
                        evs @ [\<lparr>timestamp = now2, referrer = orNull ref, ip = a\<rparr>])\<rparr>)"
    if "expiry e = Valid now1"
    using resolve_live [OF assms(2) evs(1), of now1 ref a now2] that by simp
  ultimately show ?thesis using lt evs(1) by simp
qed

theorem resolve_expired_iff_witness:
  "reachable sample_store \<and> urls sample_store ''abc123'' = Some sample_entry
   \<and> expiry sample_entry = Valid 60000
   \<and> resolve ''abc123'' None ''203.0.113.7'' 60000 60000 sample_store =
       (Ok (Some (JStr sample_url)),
        \<lparr>urls = [''abc123'' \<mapsto> sample_entry\<lparr>clicks_count := 1\<rparr>],
         clicks = [''abc123'' \<mapsto> [\<lparr>timestamp = 60000, referrer = None, ip = ''203.0.113.7''\<rparr>]]\<rparr>)
   \<and> fst (resolve ''abc123'' None ''203.0.113.7'' 60001 60001 sample_store) = Failed Expired"
proof -
  have h2: "urls sample_store ''abc123'' = Some sample_entry"
    by (simp add: sample_store_def)
  have h3: "expiry sample_entry = Valid 60000"
    by (simp add: sample_entry_def)
  from resolve_expired_iff [OF sample_reachable h2, of None "''203.0.113.7''" 60000 60000] h3
  have a: "resolve ''abc123'' None ''203.0.113.7'' 60000 60000 sample_store =
       (Ok (Some (JStr sample_url)),
        \<lparr>urls = [''abc123'' \<mapsto> sample_entry\<lparr>clicks_count := 1\<rparr>],
         clicks = [''abc123'' \<mapsto> [\<lparr>timestamp = 60000, referrer = None, ip = ''203.0.113.7''\<rparr>]]\<rparr>)"
    by (auto simp: sample_store_def sample_entry_def)
  from resolve_expired_iff [OF sample_reachable h2, of None "''203.0.113.7''" 60001 60001] h3
  have b: "fst (resolve ''abc123'' None ''203.0.113.7'' 60001 60001 sample_store) = Failed Expired"
    by simp
  from a b h2 h3 sample_reachable show ?thesis by simp
qed

subsection \<open>Serving visits\<close>

lemma resolve_all_live:
  assumes "urls s k = Some e" and "clicks s k = Some evs"
    and "list_all (\<lambda>v. \<not> date_lt (Some (expiry e)) (checked_at v)) visits"
  shows "resolve_all k visits s =
           (replicate (length visits) (Ok (Some (url e))),
            s\<lparr>urls := (urls s)(k \<mapsto> e\<lparr>clicks_count := clicks_count e + length visits\<rparr>),
              clicks := (clicks s)(k \<mapsto> evs @ map click_of visits)\<rparr>)"
  using assms
proof (induction visits arbitrary: s e evs)
  case Nil
  then have "(urls s)(k \<mapsto> e) = urls s" and "(clicks s)(k \<mapsto> evs) = clicks s"
    by (auto simp: fun_upd_idem_iff)
  then show ?case by simp
next
  case (Cons v visits)
  obtain ref a now1 now2 where v: "v = (ref, a, now1, now2)"
    by (cases v) auto
  let ?e1 = "e\<lparr>clicks_count := clicks_count e + 1\<rparr>"
  let ?evs1 = "evs @ [click_of v]"
  let ?s1 = "s\<lparr>urls := (urls s)(k \<mapsto> ?e1), clicks := (clicks s)(k \<mapsto> ?evs1)\<rparr>"
  from Cons.prems v have live: "\<not> date_lt (Some (expiry e)) now1" by simp
  have step: "resolve k ref a now1 now2 s = (Ok (Some (url e)), ?s1)"
    using resolve_live [OF Cons.prems(1) Cons.prems(2) live] v by simp
  have rest: "list_all (\<lambda>v. \<not> date_lt (Some (expiry ?e1)) (checked_at v)) visits"
    using Cons.prems(3) by simp
  have "resolve_all k visits ?s1 =
          (replicate (length visits) (Ok (Some (url ?e1))),
           ?s1\<lparr>urls := (urls ?s1)(k \<mapsto> ?e1\<lparr>clicks_count := clicks_count ?e1 + length visits\<rparr>),
               clicks := (clicks ?s1)(k \<mapsto> ?evs1 @ map click_of visits)\<rparr>)"
    by (rule Cons.IH [OF _ _ rest]) simp_all
  then have "resolve_all k visits ?s1 =
          (replicate (length visits) (Ok (Some (url e))),
           s\<lparr>urls := (urls s)(k \<mapsto> e\<lparr>clicks_count := clicks_count e + length (v # visits)\<rparr>),
             clicks := (clicks s)(k \<mapsto> evs @ map click_of (v # visits))\<rparr>)"
    by simp
  with step show ?case unfolding v by (simp add: fun_upd_def)
qed

text \<open>
  C1. In a reachable store, take a shortcode with an entry. A resolve whose clock reading
  is not past the expiry redirects to the entry's url, raises the counter by exactly one
  and appends exactly one click: the timestamp is the handler's clock reading, the
  address is the requester's, and the referrer is the request's header (\<^verbatim>\<open>null\<close> when
  the header is absent or empty). Hence \<open>N\<close> such visits in a row all redirect to the
  url, add \<open>N\<close> to the counter and append their \<open>N\<close> clicks in call order; the counter
  equals the length of the list before and after, so an entry that starts at 0 ends with
  counter \<open>N\<close> and exactly \<open>N\<close> clicks. (\<open>serve_hits\<close> below: the count is the same
  when other requests are served in between.)
\<close>

theorem resolve_counts_clicks:
  assumes "reachable s" and "urls s k = Some e"
    and "list_all (\<lambda>v. \<not> date_lt (Some (expiry e)) (checked_at v)) visits"
  shows "\<exists>evs. clicks s k = Some evs \<and> length evs = clicks_count e
           \<and> (\<forall>ref a now1 now2. \<not> date_lt (Some (expiry e)) now1 \<longrightarrow>
                 resolve k ref a now1 now2 s =
                   (Ok (Some (url e)),
                    s\<lparr>urls := (urls s)(k \<mapsto> e\<lparr>clicks_count := clicks_count e + 1\<rparr>),
                      clicks := (clicks s)(k \<mapsto>
                        evs @ [\<lparr>timestamp = now2, referrer = orNull ref, ip = a\<rparr>])\<rparr>))
           \<and> resolve_all k visits s =
                 (replicate (length visits) (Ok (Some (url e))),
                  s\<lparr>urls := (urls s)(k \<mapsto>
                       e\<lparr>clicks_count := clicks_count e + length visits\<rparr>),
                    clicks := (clicks s)(k \<mapsto> evs @ map click_of visits)\<rparr>)"
proof -
  from assms(1,2) obtain evs where evs: "clicks s k = Some evs" "length evs = clicks_count e"
    by (rule reachable_ledger)
  have one: "resolve k ref a now1 now2 s =
               (Ok (Some (url e)),
                s\<lparr>urls := (urls s)(k \<mapsto> e\<lparr>clicks_count := clicks_count e + 1\<rparr>),
                  clicks := (clicks s)(k \<mapsto>
                    evs @ [\<lparr>timestamp = now2, referrer = orNull ref, ip = a\<rparr>])\<rparr>)"
    if "\<not> date_lt (Some (expiry e)) now1" for ref a now1 now2
    using resolve_live [OF assms(2) evs(1) that] by simp
  from evs one resolve_all_live [OF assms(2) evs(1) assms(3)] show ?thesis by blast
qed

theorem resolve_counts_clicks_witness:
  "reachable sample_store \<and> urls sample_store ''abc123'' = Some sample_entry
   \<and> list_all (\<lambda>v. \<not> date_lt (Some (expiry sample_entry)) (checked_at v))
        [(Some ''https://news.example/'', ''203.0.113.7'', 10, 11), (None, ''198.51.100.2'', 60000, 60001)]
   \<and> resolve_all ''abc123''
        [(Some ''https://news.example/'', ''203.0.113.7'', 10, 11), (None, ''198.51.100.2'', 60000, 60001)]
        sample_store =
       ([Ok (Some (JStr sample_url)), Ok (Some (JStr sample_url))],
        \<lparr>urls = [''abc123'' \<mapsto> sample_entry\<lparr>clicks_count := 2\<rparr>],
         clicks = [''abc123'' \<mapsto>
           [\<lparr>timestamp = 11, referrer = Some ''https://news.example/'', ip = ''203.0.113.7''\<rparr>,
            \<lparr>timestamp = 60001, referrer = None, ip = ''198.51.100.2''\<rparr>]]\<rparr>)"
proof -
  let ?vs = "[(Some ''https://news.example/'', ''203.0.113.7'', 10, 11),
              (None, ''198.51.100.2'', 60000, 60001)] :: visit list"
  have h2: "urls sample_store ''abc123'' = Some sample_entry"
    by (simp add: sample_store_def)
  have h3: "list_all (\<lambda>v. \<not> date_lt (Some (expiry sample_entry)) (checked_at v)) ?vs"
    by (simp add: sample_entry_def)
  from resolve_counts_clicks [OF sample_reachable h2 h3]
  have "resolve_all ''abc123'' ?vs sample_store =
          (replicate (length ?vs) (Ok (Some (url sample_entry))),
           sample_store\<lparr>urls := (urls sample_store)(''abc123'' \<mapsto>
                sample_entry\<lparr>clicks_count := clicks_count sample_entry + length ?vs\<rparr>),
              clicks := (clicks sample_store)(''abc123'' \<mapsto> [] @ map click_of ?vs)\<rparr>)"
    by (auto simp: sample_store_def)
  then show ?thesis using sample_reachable h2 h3
    by (simp add: sample_store_def sample_entry_def numeral_2_eq_2)
qed

subsection \<open>What a successful create stores\<close>

lemma create_Ok:
  assumes "create z isUri u validity c draws now1 now2 s = Some (Ok reply, s')"
  obtains code d t where
    "jtruthy u" and "isUri u = Accepted"
    and "chooseShortcode c draws (urls s) = Some (Inr code)"
    and "chooseDuration validity = Inr d"
    and "getExpiryDate z now1 d = Valid t"
    and "reply = \<lparr>shortLink = HOSTNAME @ ''/shorturls/'' @ code, expiryISO = t\<rparr>"
    and "s' = s\<lparr>urls := (urls s)(code \<mapsto>
                  \<lparr>url = u, createdAt = now2, expiry = Valid t, clicks_count = 0\<rparr>),
                clicks := (clicks s)(code \<mapsto> [])\<rparr>"
  using assms
  by (auto simp: create_def Let_def
      split: option.splits sum.splits if_splits jsdate.splits verdict.splits)

text \<open>
  C2. In every reachable store, each entry's counter is the length of the click list kept
  under the same shortcode. Every handler keeps it so: after a create it holds again, and
  a create that answers 201 has stored an entry with counter 0 and an empty list under
  the shortcode of its link; after a resolve it holds again, whatever the answer; stats
  returns the store it was given.
\<close>

theorem counter_matches_click_list:
  assumes "reachable s"
  shows "(urls s k = Some e \<longrightarrow> map_option length (clicks s k) = Some (clicks_count e))
         \<and> (create z isUri u validity c draws now1 now2 s = Some (r, s') \<longrightarrow>
               (urls s' k = Some e' \<longrightarrow> map_option length (clicks s' k) = Some (clicks_count e'))
               \<and> (\<forall>reply. r = Ok reply \<longrightarrow>
                     (\<exists>code e0. shortLink reply = HOSTNAME @ ''/shorturls/'' @ code
                        \<and> urls s' code = Some e0 \<and> clicks_count e0 = 0
                        \<and> clicks s' code = Some [])))
         \<and> (resolve k2 ref a t1 t2 s = (r2, s2) \<longrightarrow> urls s2 k = Some e2 \<longrightarrow>
               map_option length (clicks s2 k) = Some (clicks_count e2))
         \<and> snd (stats k3 s) = s"
proof (intro conjI impI allI)
  assume "urls s k = Some e"
  with reachable_consistent [OF assms]
  show "map_option length (clicks s k) = Some (clicks_count e)"
    by (simp add: consistent_def)
next
  assume "create z isUri u validity c draws now1 now2 s = Some (r, s')" and "urls s' k = Some e'"
  with create_consistent [OF reachable_consistent [OF assms]]
  show "map_option length (clicks s' k) = Some (clicks_count e')"
    by (simp add: consistent_def)
next
  fix reply
  assume "create z isUri u validity c draws now1 now2 s = Some (r, s')" and "r = Ok reply"
  then have "create z isUri u validity c draws now1 now2 s = Some (Ok reply, s')" by simp
  then show "\<exists>code e0. shortLink reply = HOSTNAME @ ''/shorturls/'' @ code
               \<and> urls s' code = Some e0 \<and> clicks_count e0 = 0 \<and> clicks s' code = Some []"
    by (rule create_Ok) simp
next
  assume "resolve k2 ref a t1 t2 s = (r2, s2)" and "urls s2 k = Some e2"
  with resolve_consistent [OF reachable_consistent [OF assms], of k2 ref a t1 t2]
  show "map_option length (clicks s2 k) = Some (clicks_count e2)"
    by (simp add: consistent_def)
next
  show "snd (stats k3 s) = s" by (rule stats_store)
qed

theorem counter_matches_click_list_witness:
  "reachable sample_store
   \<and> urls sample_store ''abc123'' = Some sample_entry
   \<and> map_option length (clicks sample_store ''abc123'') = Some (clicks_count sample_entry)
   \<and> map_option length
        (clicks (snd (resolve ''abc123'' None ''203.0.113.7'' 5 6 sample_store)) ''abc123'') = Some 1
   \<and> map_option clicks_count
        (urls (snd (resolve ''abc123'' None ''203.0.113.7'' 5 6 sample_store)) ''abc123'') = Some 1
   \<and> snd (stats ''abc123'' sample_store) = sample_store"
proof -
  have h: "urls sample_store ''abc123'' = Some sample_entry"
    by (simp add: sample_store_def)
  let ?s2 = "snd (resolve ''abc123'' None ''203.0.113.7'' 5 6 sample_store)"
  have r: "resolve ''abc123'' None ''203.0.113.7'' 5 6 sample_store =
             (fst (resolve ''abc123'' None ''203.0.113.7'' 5 6 sample_store), ?s2)"
    by simp
  have c: "urls ?s2 ''abc123'' = Some (sample_entry\<lparr>clicks_count := 1\<rparr>)"
    by (simp add: resolve_def getProp_def sample_store_def sample_entry_def Let_def)
  note t = counter_matches_click_list [OF sample_reachable, where k = "''abc123''"
      and e = sample_entry and ?k2.0 = "''abc123''" and ref = None and a = "''203.0.113.7''"
      and ?t1.0 = 5 and ?t2.0 = 6 and ?s2.0 = ?s2
      and ?e2.0 = "sample_entry\<lparr>clicks_count := 1\<rparr>" and ?k3.0 = "''abc123''"]
  from t h have 1: "map_option length (clicks sample_store ''abc123'') = Some (clicks_count sample_entry)"
    by blast
  from t r c have 2: "map_option length (clicks ?s2 ''abc123'') = Some (clicks_count (sample_entry\<lparr>clicks_count := 1\<rparr>))"
    by blast
  from t have 3: "snd (stats ''abc123'' sample_store) = sample_store"
    by blast
  from 1 2 3 c h sample_reachable show ?thesis by simp
qed

subsection \<open>Stats\<close>

lemma stats_NotFound_iff:
  assumes "k \<notin> set objectPrototypeKeys"
  shows "(fst (stats k s) = Failed NotFound) = (urls s k = None)"
  using assms by (auto simp: stats_def getProp_def split: option.splits slot.splits)

lemma stats_entry:
  assumes "reachable s" and "urls s k = Some e"
  obtains evs where "clicks s k = Some evs" and "length evs = clicks_count e"
    and "stats k s =
           (Ok \<lparr>shortcode = k, originalUrl = Some (url e), createdAt_s = Some (createdAt e),
                expiry_s = Some (expiry e), totalClicks = Some (clicks_count e),
                clickDetails = evs\<rparr>, s)"
proof -
  from assms obtain evs where evs: "clicks s k = Some evs" "length evs = clicks_count e"
    by (rule reachable_ledger)
  with assms(2) have "stats k s =
           (Ok \<lparr>shortcode = k, originalUrl = Some (url e), createdAt_s = Some (createdAt e),
                expiry_s = Some (expiry e), totalClicks = Some (clicks_count e),
                clickDetails = evs\<rparr>, s)"
    by (simp add: stats_def getProp_own)
  with evs show ?thesis by (rule that)
qed

text \<open>
  C4. Stats answers NotFound for a shortcode without an entry only when the shortcode is
  not the name of a property of \<^verbatim>\<open>Object.prototype\<close> (\<open>stats_NotFound_iff\<close>), and for
  an entry of a reachable store it returns the entry's fields and the whole click list,
  expired or not, and leaves the store alone (\<open>stats_entry\<close>, \<open>stats_store\<close>). For an
  inherited name the claim fails: in the empty store nothing is registered under
  \<^verbatim>\<open>constructor\<close>, yet \<^verbatim>\<open>urls['constructor']\<close> is truthy, the 404 branch is skipped, and
  \<^verbatim>\<open>allClicks.map\<close> throws a TypeError.
\<close>

theorem stats_of_inherited_key:
  "urls initial ''constructor'' = None
   \<and> stats ''constructor'' initial = (Threw TypeError, initial)"
  by (simp add: stats_def getProp_def initial_def objectPrototypeKeys_def)

subsection \<open>Create: the url\<close>

lemma create_refuses_url:
  assumes "\<not> jtruthy u \<or> isUri u = Refused"
  shows "create z isUri u validity c draws now1 now2 s = Some (Failed InvalidUrl, s)"
  using assms by (auto simp: create_def)

text \<open>
  C8. A create whose \<^verbatim>\<open>url\<close> is missing or falsy, or is a value that \<^verbatim>\<open>validUrl.isUri\<close>
  returns \<^verbatim>\<open>undefined\<close> for, answers InvalidUrl and returns the store it was given
  (\<open>create_refuses_url\<close>; \<^verbatim>\<open>not-a-url\<close> is such a value for every validator that refuses
  it). The claim fails where the validator throws: line 40 hands it every truthy value,
  and for one that is not a string, such as the number of \<^verbatim>\<open>{"url": 123}\<close>, the package
  throws a TypeError, which leaves the handler in place of the 400 answer. The store is
  unchanged there too.
\<close>

theorem create_url_validator_raises:
  assumes "jtruthy u" and "isUri u = Raised x"
  shows "create z isUri u validity c draws now1 now2 s = Some (Threw x, s)"
  using assms by (simp add: create_def)

theorem create_url_validator_raises_witness:
  "jtruthy (JInt 123) \<and> sample_isUri (JInt 123) = Raised TypeError
   \<and> create utc sample_isUri (JInt 123) JUndefined None [] 0 0 initial
       = Some (Threw TypeError, initial)"
proof -
  have t: "jtruthy (JInt 123)" by simp
  have r: "sample_isUri (JInt 123) = Raised TypeError" by simp
  from create_url_validator_raises [where isUri = sample_isUri and u = "JInt 123", OF t r] t r
  show ?thesis by simp
qed

subsection \<open>Generated codes\<close>

lemma chars_length: "length chars = 62"
  by (simp add: chars_def)

lemma chars_alnum: "list_all alnum chars"
  by (simp add: chars_def alnum_def)

lemma concat_pick_shape:
  assumes "list_all (\<lambda>i. i < length chars) xs"
  shows "length (concat (map pick xs)) = length xs \<and> set (concat (map pick xs)) \<subseteq> set chars"
  using assms by (induction xs) (auto simp: pick_def)

lemma candidate_shape:
  assumes "6 \<le> length rs" and "list_all (\<lambda>i. i < length chars) rs"
  shows "length (candidate rs) = 6" and "set (candidate rs) \<subseteq> set chars"
proof -
  from assms(2) have "list_all (\<lambda>i. i < length chars) (take 6 rs)"
    by (auto simp: list_all_iff dest: in_set_takeD)
  from concat_pick_shape [OF this] assms(1)
  show "length (candidate rs) = 6" and "set (candidate rs) \<subseteq> set chars"
    by (simp_all add: candidate_def)
qed

lemma chars_valid:
  assumes "4 \<le> length code" and "set code \<subseteq> set chars"
  shows "isValidShortcode code"
  using assms chars_alnum by (auto simp: isValidShortcode_def list_all_iff)

lemma six_not_inherited:
  assumes "length code = 6"
  shows "code \<notin> set objectPrototypeKeys"
  using assms by (auto simp: objectPrototypeKeys_def)

lemma generateShortcode_Some:
  assumes "generateShortcode us rs = Some code"
  shows "getProp us code = None
         \<and> (\<exists>n. 6 * n + 6 \<le> length rs \<and> code = candidate (drop (6 * n) rs)
                \<and> (\<forall>m<n. getProp us (candidate (drop (6 * m) rs)) \<noteq> None))"
  using assms
proof (induction us rs rule: generateShortcode.induct)
  case (1 us rs)
  show ?case
  proof (cases "getProp us (candidate rs) = None")
    case True
    with "1.prems" have "code = candidate rs" and "6 \<le> length rs"
      by (auto simp: generateShortcode.simps [of us rs] split: if_splits)
    with True show ?thesis by (intro conjI exI [of _ 0]) simp_all
  next
    case False
    with "1.prems" have len: "6 \<le> length rs" and rest: "generateShortcode us (drop 6 rs) = Some code"
      by (auto simp: generateShortcode.simps [of us rs] split: if_splits)
    from "1.IH" [OF _ False rest] len obtain n where
      free: "getProp us code = None" and n: "6 * n + 6 \<le> length (drop 6 rs)"
      and code: "code = candidate (drop (6 * n) (drop 6 rs))"
      and before: "\<forall>m<n. getProp us (candidate (drop (6 * m) (drop 6 rs))) \<noteq> None"
      by auto
    have "\<forall>m<Suc n. getProp us (candidate (drop (6 * m) rs)) \<noteq> None"
    proof (intro allI impI)
      fix m assume "m < Suc n"
      show "getProp us (candidate (drop (6 * m) rs)) \<noteq> None"
      proof (cases m)
        case 0
        with False show ?thesis by simp
      next
        case (Suc m')
        with \<open>m < Suc n\<close> before have "getProp us (candidate (drop (6 * m') (drop 6 rs))) \<noteq> None"
          by simp
        with Suc show ?thesis by (simp add: add.commute)
      qed
    qed
    moreover from n have "6 * Suc n + 6 \<le> length rs" by simp
    moreover from code have "code = candidate (drop (6 * Suc n) rs)" by (simp add: add.commute)
    ultimately show ?thesis using free by blast
  qed
qed

lemma generateShortcode_returns:
  assumes "6 * n + 6 \<le> length rs" and "getProp us (candidate (drop (6 * n) rs)) = None"
  shows "generateShortcode us rs \<noteq> None"
  using assms
proof (induction n arbitrary: rs)
  case 0
  then show ?case by (simp add: generateShortcode.simps [of us rs])
next
  case (Suc n)
  from Suc.prems have "6 * n + 6 \<le> length (drop 6 rs)"
    and "getProp us (candidate (drop (6 * n) (drop 6 rs))) = None"
    by (simp_all add: add.commute)
  from Suc.IH [OF this] Suc.prems(1) show ?case
    by (simp add: generateShortcode.simps [of us rs])
qed


lemma chooseShortcode_Inr:
  assumes "chooseShortcode c draws us = Some (Inr code)"
  shows "getProp us code = None"
    and "truthy c \<Longrightarrow> c = Some code \<and> isValidShortcode code"
    and "\<not> truthy c \<Longrightarrow> generateShortcode us draws = Some code"
  using assms generateShortcode_Some [of us draws code]
  by (auto simp: chooseShortcode_def split: option.splits if_splits)

text \<open>
  C5. When a create answers 201, the shortcode at the end of its link matches
  \<^verbatim>\<open>/^[a-zA-Z0-9]{4,}$/\<close>, keyed no entry in the store the request found, and keys one
  afterwards. A truthy \<^verbatim>\<open>shortcode\<close> field is that code. Otherwise the code is generated:
  with every draw an index into \<open>chars\<close>, it has exactly six characters of the 62 of
  \<open>chars\<close>, and it is the first of the successive six-draw candidates that keys no entry,
  every earlier candidate keying one. (\<open>generateShortcode_returns\<close>: the loop returns as
  soon as the draws hold such a candidate.)
\<close>

theorem create_shortcode_valid_and_fresh:
  assumes "create z isUri u validity c draws now1 now2 s = Some (Ok reply, s')"
    and "list_all (\<lambda>i. i < length chars) draws"
  shows "\<exists>code. shortLink reply = HOSTNAME @ ''/shorturls/'' @ code
           \<and> isValidShortcode code \<and> urls s code = None \<and> urls s' code \<noteq> None
           \<and> (truthy c \<longrightarrow> c = Some code)
           \<and> (\<not> truthy c \<longrightarrow>
                 length code = 6 \<and> set code \<subseteq> set chars \<and> length chars = 62
                 \<and> (\<exists>n. 6 * n + 6 \<le> length draws \<and> code = candidate (drop (6 * n) draws)
                        \<and> (\<forall>m<n. urls s (candidate (drop (6 * m) draws)) \<noteq> None)))"
proof -
  from assms(1) obtain code d t where
    choose: "chooseShortcode c draws (urls s) = Some (Inr code)"
    and reply: "reply = \<lparr>shortLink = HOSTNAME @ ''/shorturls/'' @ code, expiryISO = t\<rparr>"
    and s': "s' = s\<lparr>urls := (urls s)(code \<mapsto>
                  \<lparr>url = u, createdAt = now2, expiry = Valid t, clicks_count = 0\<rparr>),
                clicks := (clicks s)(code \<mapsto> [])\<rparr>"
    by (rule create_Ok)
  note c = chooseShortcode_Inr [OF choose]
  from c(1) have free: "urls s code = None"
    by (simp add: getProp_None_iff)
  have gen: "length code = 6 \<and> set code \<subseteq> set chars
        \<and> (\<exists>n. 6 * n + 6 \<le> length draws \<and> code = candidate (drop (6 * n) draws)
               \<and> (\<forall>m<n. urls s (candidate (drop (6 * m) draws)) \<noteq> None))"
    if "\<not> truthy c"
  proof -
    from generateShortcode_Some [OF c(3) [OF that]] obtain n where
      n: "6 * n + 6 \<le> length draws" and code: "code = candidate (drop (6 * n) draws)"
      and before: "\<forall>m<n. getProp (urls s) (candidate (drop (6 * m) draws)) \<noteq> None"
      by blast
    have shape: "length (candidate (drop (6 * m) draws)) = 6
                 \<and> set (candidate (drop (6 * m) draws)) \<subseteq> set chars" if "m \<le> n" for m
    proof -
      from that n have "6 \<le> length (drop (6 * m) draws)" by simp
      moreover from assms(2) have "list_all (\<lambda>i. i < length chars) (drop (6 * m) draws)"
        by (auto simp: list_all_iff dest: in_set_dropD)
      ultimately show ?thesis by (simp add: candidate_shape)
    qed
    have "urls s (candidate (drop (6 * m) draws)) \<noteq> None" if "m < n" for m
    proof -
      from that shape [of m] have "candidate (drop (6 * m) draws) \<notin> set objectPrototypeKeys"
        by (simp add: six_not_inherited)
      with before that show ?thesis by (auto simp: getProp_None_iff)
    qed
    with shape [of n] n code show ?thesis by blast
  qed
  have valid: "isValidShortcode code"
  proof (cases "truthy c")
    case True
    with c(2) show ?thesis by simp
  next
    case False
    with gen show ?thesis by (simp add: chars_valid)
  qed
  from reply s' free valid gen c(2) chars_length show ?thesis
    by (intro exI [of _ code]) simp
qed

theorem create_shortcode_valid_and_fresh_witness:
  "list_all (\<lambda>i. i < length chars) [0, 1, 2, 52, 53, 54, 26, 27, 28, 61, 60, 59]
   \<and> create utc sample_isUri (JStr sample_url) JUndefined None
        [0, 1, 2, 52, 53, 54, 26, 27, 28, 61, 60, 59] 0 0
        \<lparr>urls = [''abc012'' \<mapsto> sample_entry], clicks = [''abc012'' \<mapsto> []]\<rparr>
      = Some (Ok \<lparr>shortLink = ''http://localhost:4000/shorturls/ABC987'', expiryISO = 1800000\<rparr>,
              \<lparr>urls = [''abc012'' \<mapsto> sample_entry,
                        ''ABC987'' \<mapsto> \<lparr>url = JStr sample_url, createdAt = 0,
                                          expiry = Valid 1800000, clicks_count = 0\<rparr>],
               clicks = [''abc012'' \<mapsto> [], ''ABC987'' \<mapsto> []]\<rparr>)
   \<and> isValidShortcode ''ABC987''
   \<and> length ''ABC987'' = 6"
proof -
  let ?draws = "[0, 1, 2, 52, 53, 54, 26, 27, 28, 61, 60, 59] :: nat list"
  let ?s = "\<lparr>urls = [''abc012'' \<mapsto> sample_entry], clicks = [''abc012'' \<mapsto> []]\<rparr>"
  let ?reply = "\<lparr>shortLink = ''http://localhost:4000/shorturls/ABC987'', expiryISO = 1800000\<rparr>"
  let ?s' = "\<lparr>urls = [''abc012'' \<mapsto> sample_entry,
                        ''ABC987'' \<mapsto> \<lparr>url = JStr sample_url, createdAt = 0,
                                          expiry = Valid 1800000, clicks_count = 0\<rparr>],
               clicks = [''abc012'' \<mapsto> [], ''ABC987'' \<mapsto> []]\<rparr>"
  have h1: "create utc sample_isUri (JStr sample_url) JUndefined None ?draws 0 0 ?s
              = Some (Ok ?reply, ?s')"
    by (simp add: create_def chooseShortcode_def generateShortcode.simps candidate_def pick_def
        chars_def getProp_def objectPrototypeKeys_def getExpiryDate_utc timeClip_def maxTime_def
        HOSTNAME_def sample_url_def)
  have h2: "list_all (\<lambda>i. i < length chars) ?draws"
    by (simp add: chars_def)
  from create_shortcode_valid_and_fresh [OF h1 h2]
  have "isValidShortcode ''ABC987'' \<and> length ''ABC987'' = 6"
    by (auto simp: HOSTNAME_def)
  with h1 h2 show ?thesis by simp
qed

subsection \<open>Other requests in between\<close>

text \<open>
  A create never writes under a key that has an entry, and a resolve writes under its
  own shortcode only. So over any sequence of creates and resolves an entry's counter
  grows by the number of its own served redirects and its click list by exactly their
  clicks, in order, whatever else is served in between.
\<close>

lemma create_frame:
  assumes "create z isUri u validity c draws now1 now2 s = Some (r, s')" and "urls s k = Some e"
  shows "urls s' k = Some e \<and> clicks s' k = clicks s k"
proof (cases "s' = s")
  case True
  with assms(2) show ?thesis by simp
next
  case False
  from assms(1) False obtain code where
    choose: "chooseShortcode c draws (urls s) = Some (Inr code)"
    and s': "s' = s\<lparr>urls := (urls s)(code \<mapsto>
                  \<lparr>url = u, createdAt = now2,
                   expiry = getExpiryDate z now1 (case chooseDuration validity of Inr d \<Rightarrow> d),
                   clicks_count = 0\<rparr>),
                clicks := (clicks s)(code \<mapsto> [])\<rparr>"
    by (auto simp: create_def Let_def split: option.splits sum.splits if_splits verdict.splits)
  from chooseShortcode_Inr(1) [OF choose] assms(2) have "code \<noteq> k"
    by (auto simp: getProp_None_iff)
  with s' assms(2) show ?thesis by simp
qed

lemma resolve_frame:
  assumes "k' \<noteq> k"
  shows "urls (snd (resolve k' ref a now1 now2 s)) k = urls s k
         \<and> clicks (snd (resolve k' ref a now1 now2 s)) k = clicks s k"
proof (cases "getProp (urls s) k'")
  case None
  then show ?thesis by (simp add: resolve_def)
next
  case (Some x)
  with assms show ?thesis
    by (cases x) (auto simp: resolve_def Let_def split: option.splits slot.splits)
qed

lemma start_hits:
  assumes "urls s k = Some e" and "clicks s k = Some evs" and "start q s = Some (r, s1)"
  shows "urls s1 k = Some (e\<lparr>clicks_count := clicks_count e + length (hits k (expiry e) [q])\<rparr>)
         \<and> clicks s1 k = Some (evs @ hits k (expiry e) [q])"
proof (cases q)
  case (Create z isUri u validity c draws now1 now2)
  with assms(3) obtain r' where "create z isUri u validity c draws now1 now2 s = Some (r', s1)"
    by (auto split: option.splits)
  from create_frame [OF this assms(1)] assms(2) Create show ?thesis by simp
next
  case (Resolve k' ref a now1 now2)
  with assms(3) have s1: "s1 = snd (resolve k' ref a now1 now2 s)"
    by (auto split: prod.splits)
  show ?thesis
  proof (cases "k' = k")
    case False
    with resolve_frame [OF False, of ref a now1 now2 s] s1 assms(1,2) Resolve show ?thesis
      by simp
  next
    case True
    show ?thesis
    proof (cases "date_lt (Some (expiry e)) now1")
      case expired: True
      with resolve_expired [OF assms(1) expired, of ref a now2] s1 assms(1,2) Resolve \<open>k' = k\<close>
      show ?thesis by simp
    next
      case live: False
      with resolve_live [OF assms(1,2) live, of ref a now2] s1 Resolve \<open>k' = k\<close>
      show ?thesis by simp
    qed
  qed
qed

lemma hits_Cons: "hits k x (q # qs) = hits k x [q] @ hits k x qs"
  by (cases q) simp_all

lemma serve_hits:
  assumes "urls s k = Some e" and "clicks s k = Some evs" and "serve qs s = Some (rs, s')"
  shows "urls s' k = Some (e\<lparr>clicks_count := clicks_count e + length (hits k (expiry e) qs)\<rparr>)
         \<and> clicks s' k = Some (evs @ hits k (expiry e) qs)"
  using assms
proof (induction qs arbitrary: s e evs rs)
  case Nil
  then show ?case by simp
next
  case (Cons q qs)
  from Cons.prems(3) obtain r s1 rs' where
    q: "start q s = Some (r, s1)" and rest: "serve qs s1 = Some (rs', s')"
    by (auto split: option.splits)
  let ?e1 = "e\<lparr>clicks_count := clicks_count e + length (hits k (expiry e) [q])\<rparr>"
  from start_hits [OF Cons.prems(1,2) q]
  have 1: "urls s1 k = Some ?e1" "clicks s1 k = Some (evs @ hits k (expiry e) [q])"
    by simp_all
  from Cons.IH [OF 1 rest] show ?case
    by (simp add: hits_Cons [of k "expiry e" q qs])
qed

subsection \<open>Create: the custom shortcode\<close>

lemma create_custom_invalid:
  assumes "jtruthy u" and "isUri u = Accepted" and "code \<noteq> []" and "\<not> isValidShortcode code"
  shows "create z isUri u validity (Some code) draws now1 now2 s
           = Some (Failed InvalidShortcode, s)"
  using assms by (simp add: create_def chooseShortcode_def)

lemma create_custom_conflict:
  assumes "jtruthy u" and "isUri u = Accepted" and "code \<noteq> []" and "isValidShortcode code"
    and "getProp (urls s) code \<noteq> None"
  shows "create z isUri u validity (Some code) draws now1 now2 s
           = Some (Failed ShortcodeConflict, s)"
  using assms by (simp add: create_def chooseShortcode_def)

lemma create_custom_Ok:
  assumes "create z isUri u validity (Some code) draws now1 now2 s = Some (Ok reply, s')"
    and "code \<noteq> []"
  obtains t where "jtruthy u" and "isUri u = Accepted"
    and "isValidShortcode code" and "getProp (urls s) code = None"
    and "reply = \<lparr>shortLink = HOSTNAME @ ''/shorturls/'' @ code, expiryISO = t\<rparr>"
    and "s' = s\<lparr>urls := (urls s)(code \<mapsto>
                  \<lparr>url = u, createdAt = now2, expiry = Valid t, clicks_count = 0\<rparr>),
                clicks := (clicks s)(code \<mapsto> [])\<rparr>"
proof -
  from assms(1) obtain code' d t where
    u: "jtruthy u" "isUri u = Accepted"
    and choose: "chooseShortcode (Some code) draws (urls s) = Some (Inr code')"
    and rest: "reply = \<lparr>shortLink = HOSTNAME @ ''/shorturls/'' @ code', expiryISO = t\<rparr>"
      "s' = s\<lparr>urls := (urls s)(code' \<mapsto>
                  \<lparr>url = u, createdAt = now2, expiry = Valid t, clicks_count = 0\<rparr>),
                clicks := (clicks s)(code' \<mapsto> [])\<rparr>"
    by (rule create_Ok)
  from assms(2) chooseShortcode_Inr(1,2) [OF choose]
  have "code' = code" "isValidShortcode code" "getProp (urls s) code = None"
    by simp_all
  with u rest show ?thesis by (intro that) simp_all
qed

text \<open>
  C6, as stated, fails for the empty string: it does not match the pattern, but
  \<^verbatim>\<open>if (shortcode)\<close> takes it for an absent field, and the create answers 201 with a
  generated code.
\<close>

theorem create_empty_shortcode_counterexample:
  "\<not> isValidShortcode ''''
   \<and> create utc sample_isUri (JStr sample_url) JUndefined (Some '''') [0, 0, 0, 0, 0, 0] 0 0
        initial
      = Some (Ok \<lparr>shortLink = ''http://localhost:4000/shorturls/aaaaaa'', expiryISO = 1800000\<rparr>,
              \<lparr>urls = [''aaaaaa'' \<mapsto> \<lparr>url = JStr sample_url, createdAt = 0,
                                          expiry = Valid 1800000, clicks_count = 0\<rparr>],
               clicks = [''aaaaaa'' \<mapsto> []]\<rparr>)"
  by (simp add: isValidShortcode_def create_def chooseShortcode_def generateShortcode.simps
      candidate_def pick_def chars_def getProp_def objectPrototypeKeys_def getExpiryDate_utc
      timeClip_def maxTime_def HOSTNAME_def sample_url_def initial_def)

text \<open>
  C6, amended. On a create that passes the url test (a truthy \<^verbatim>\<open>url\<close> that the validator
  accepts), a non-empty \<^verbatim>\<open>shortcode\<close> that does
  not match \<^verbatim>\<open>/^[a-zA-Z0-9]{4,}$/\<close> is answered InvalidShortcode (\<^verbatim>\<open>abc\<close> does not
  match), one that matches and keys an entry is answered ShortcodeConflict, both with the
  store unchanged; and whenever such a create answers 201, the link ends in the very
  shortcode that was asked for, which keyed no entry before.
\<close>

theorem create_custom_shortcode:
  assumes "jtruthy u" and "isUri u = Accepted" and "code \<noteq> []"
  shows "(\<not> isValidShortcode code \<longrightarrow>
            create z isUri u validity (Some code) draws now1 now2 s
              = Some (Failed InvalidShortcode, s))
         \<and> (isValidShortcode code \<and> urls s code \<noteq> None \<longrightarrow>
               create z isUri u validity (Some code) draws now1 now2 s
                 = Some (Failed ShortcodeConflict, s))
         \<and> (\<forall>reply s'. create z isUri u validity (Some code) draws now1 now2 s
                           = Some (Ok reply, s') \<longrightarrow>
               shortLink reply = HOSTNAME @ ''/shorturls/'' @ code \<and> urls s code = None)
         \<and> \<not> isValidShortcode ''abc''"
proof (intro conjI impI allI)
  assume "\<not> isValidShortcode code"
  with assms show "create z isUri u validity (Some code) draws now1 now2 s
                     = Some (Failed InvalidShortcode, s)"
    by (simp add: create_custom_invalid)
next
  assume "isValidShortcode code \<and> urls s code \<noteq> None"
  with assms show "create z isUri u validity (Some code) draws now1 now2 s
                     = Some (Failed ShortcodeConflict, s)"
    by (simp add: create_custom_conflict getProp_None_iff)
next
  fix reply s'
  assume "create z isUri u validity (Some code) draws now1 now2 s = Some (Ok reply, s')"
  from this assms(3) obtain t where "getProp (urls s) code = None"
    and "reply = \<lparr>shortLink = HOSTNAME @ ''/shorturls/'' @ code, expiryISO = t\<rparr>"
    by (rule create_custom_Ok)
  then show "shortLink reply = HOSTNAME @ ''/shorturls/'' @ code" "urls s code = None"
    by (simp_all add: getProp_None_iff)
next
  show "\<not> isValidShortcode ''abc''"
    by (simp add: isValidShortcode_def)
qed

theorem create_custom_shortcode_witness:
  "jtruthy (JStr sample_url) \<and> sample_isUri (JStr sample_url) = Accepted
   \<and> ''abc'' \<noteq> [] \<and> ''abc123'' \<noteq> []
   \<and> \<not> isValidShortcode ''abc''
   \<and> create utc sample_isUri (JStr sample_url) JUndefined (Some ''abc'') [] 5 5 sample_store
       = Some (Failed InvalidShortcode, sample_store)
   \<and> isValidShortcode ''abc123'' \<and> urls sample_store ''abc123'' \<noteq> None
   \<and> create utc sample_isUri (JStr sample_url) JUndefined (Some ''abc123'') [] 5 5 sample_store
       = Some (Failed ShortcodeConflict, sample_store)"
proof -
  have u: "jtruthy (JStr sample_url)"
    by (simp add: sample_url_def)
  have acc: "sample_isUri (JStr sample_url) = Accepted"
    by simp
  have v: "isValidShortcode ''abc123''"
    by (simp add: isValidShortcode_def alnum_def)
  have k: "urls sample_store ''abc123'' \<noteq> None"
    by (simp add: sample_store_def)
  have n: "\<not> isValidShortcode ''abc''"
    by (simp add: isValidShortcode_def)
  from create_custom_shortcode [where isUri = sample_isUri and u = "JStr sample_url"
      and code = "''abc''", OF u acc] n
  have a: "create utc sample_isUri (JStr sample_url) JUndefined (Some ''abc'') [] 5 5 sample_store
       = Some (Failed InvalidShortcode, sample_store)"
    by simp
  from create_custom_shortcode [where isUri = sample_isUri and u = "JStr sample_url"
      and code = "''abc123''", OF u acc] v k
  have b: "create utc sample_isUri (JStr sample_url) JUndefined (Some ''abc123'') [] 5 5 sample_store
       = Some (Failed ShortcodeConflict, sample_store)"
    by simp
  from u acc v k n a b show ?thesis by simp
qed

subsection \<open>Create: validity and expiry\<close>

lemma chooseDuration_Inr:
  assumes "chooseDuration validity = Inr d"
  shows "d = minutes_of validity \<and> 1 \<le> d \<and> (validity = JUndefined \<or> validity = JInt d)"
  using assms by (cases validity) (auto split: if_splits)

lemma chooseDuration_Inl:
  assumes "validity \<noteq> JUndefined" and "\<forall>n. validity = JInt n \<longrightarrow> n < 1"
  shows "chooseDuration validity = Inl InvalidValidity"
  using assms by (cases validity) auto

text \<open>
  C7, as stated, fails when the clock moves between the two readings of the handler:
  on a host in UTC, \<^verbatim>\<open>getExpiryDate\<close> reads it at 0, \<^verbatim>\<open>createdAt: new Date()\<close> reads it at
  1, and with \<^verbatim>\<open>validity: 1\<close> the stored expiry is 60000, not \<open>createdAt\<close> plus one
  minute.
\<close>

theorem create_two_clock_readings_counterexample:
  "create utc sample_isUri (JStr sample_url) (JInt 1) (Some ''abc123'') [] 0 1 initial
     = Some (Ok \<lparr>shortLink = ''http://localhost:4000/shorturls/abc123'', expiryISO = 60000\<rparr>,
             \<lparr>urls = [''abc123'' \<mapsto> \<lparr>url = JStr sample_url, createdAt = 1, expiry = Valid 60000,
                                         clicks_count = 0\<rparr>],
              clicks = [''abc123'' \<mapsto> []]\<rparr>)
   \<and> Valid 60000 \<noteq> Valid (1 + 1 * 60000)"
  by (simp add: create_def chooseShortcode_def isValidShortcode_def alnum_def getProp_def
      objectPrototypeKeys_def getExpiryDate_utc timeClip_def maxTime_def HOSTNAME_def
      initial_def sample_url_def)

text \<open>
  The expiry is computed on local time. Where the clocks are set back it can come out
  before the reading: in New York at 06:30 UTC on 2 November 2025 (01:30 for the second
  time), one minute later is 01:31, which is read back as the first 01:31, 59 minutes
  before the reading.
\<close>

lemma create_expiry_before_reading:
  "create new_york sample_isUri (JStr sample_url) (JInt 1) (Some ''abc123'') []
     1762065000000 1762065000000 initial
     = Some (Ok \<lparr>shortLink = ''http://localhost:4000/shorturls/abc123'',
                 expiryISO = 1762061460000\<rparr>,
             \<lparr>urls = [''abc123'' \<mapsto> \<lparr>url = JStr sample_url, createdAt = 1762065000000,
                                         expiry = Valid 1762061460000, clicks_count = 0\<rparr>],
              clicks = [''abc123'' \<mapsto> []]\<rparr>)"
  by (simp add: create_def chooseShortcode_def isValidShortcode_def alnum_def getProp_def
      objectPrototypeKeys_def getExpiryDate_local new_york_def timeClip_def maxTime_def
      HOSTNAME_def initial_def sample_url_def)

text \<open>
  C7, amended. For every create that returns: a \<^verbatim>\<open>validity\<close> that is present and is not
  an integer of at least 1 makes the call fail with the store unchanged, with
  InvalidValidity unless the url test or the shortcode test, which come first, has
  already ended it. A create that answers 201 had no \<^verbatim>\<open>validity\<close> (then 30 minutes
  count) or an integer of at least 1, and it reports the expiry it stores; \<open>createdAt\<close> is
  the handler's second clock reading. Where the host's offset from UTC at the reading of
  \<^verbatim>\<open>getExpiryDate\<close> is also the offset with which the resulting local time is read back
  (no change of offset in between), that expiry is the reading plus the minutes: it is
  \<open>createdAt\<close> plus the minutes when the two readings agree, and it lies after
  \<open>createdAt\<close> when the readings are less than those minutes apart. Nothing is said here
  about a host whose offset changes in between.
\<close>

theorem create_validity_and_expiry:
  assumes "create z isUri u validity c draws now1 now2 s = Some (r, s')"
  shows "(validity \<noteq> JUndefined \<and> (\<forall>n. validity = JInt n \<longrightarrow> n < 1) \<longrightarrow>
            s' = s
            \<and> (r = Failed InvalidValidity \<or> r = Failed InvalidUrl \<or> r = Failed InvalidShortcode
                 \<or> r = Failed ShortcodeConflict \<or> (\<exists>x. r = Threw x))
            \<and> (jtruthy u \<and> isUri u = Accepted
                 \<and> (truthy c \<longrightarrow> isValidShortcode (the c) \<and> getProp (urls s) (the c) = None)
                 \<longrightarrow> r = Failed InvalidValidity))
         \<and> (\<forall>reply. r = Ok reply \<longrightarrow>
               (validity = JUndefined \<or> (\<exists>n\<ge>1. validity = JInt n))
               \<and> (validity = JUndefined \<longrightarrow> minutes_of validity = 30)
               \<and> (\<exists>code e. shortLink reply = HOSTNAME @ ''/shorturls/'' @ code
                     \<and> urls s' code = Some e
                     \<and> createdAt e = now2
                     \<and> expiry e = Valid (expiryISO reply)
                     \<and> (localOffset z (now1 + utcOffset z now1 + minutes_of validity * 60000)
                           = utcOffset z now1 \<longrightarrow>
                         expiryISO reply = now1 + minutes_of validity * 60000
                         \<and> (now2 = now1 \<longrightarrow>
                               expiry e = Valid (createdAt e + minutes_of validity * 60000))
                         \<and> (now2 - now1 < minutes_of validity * 60000 \<longrightarrow>
                               createdAt e < expiryISO reply))))"
proof (intro conjI impI allI)
  assume bad: "validity \<noteq> JUndefined \<and> (\<forall>n. validity = JInt n \<longrightarrow> n < 1)"
  then have inl: "chooseDuration validity = Inl InvalidValidity"
    by (simp add: chooseDuration_Inl)
  with assms show "s' = s"
    by (auto simp: create_def split: option.splits sum.splits if_splits verdict.splits)
  from inl assms
  show "r = Failed InvalidValidity \<or> r = Failed InvalidUrl \<or> r = Failed InvalidShortcode
          \<or> r = Failed ShortcodeConflict \<or> (\<exists>x. r = Threw x)"
    by (auto simp: create_def chooseShortcode_def
        split: option.splits sum.splits if_splits verdict.splits)
  assume "jtruthy u \<and> isUri u = Accepted
            \<and> (truthy c \<longrightarrow> isValidShortcode (the c) \<and> getProp (urls s) (the c) = None)"
  with inl assms show "r = Failed InvalidValidity"
    by (auto simp: create_def chooseShortcode_def split: option.splits sum.splits if_splits)
next
  fix reply
  assume "r = Ok reply"
  with assms have "create z isUri u validity c draws now1 now2 s = Some (Ok reply, s')" by simp
  then obtain code d t where
    d: "chooseDuration validity = Inr d" and t: "getExpiryDate z now1 d = Valid t"
    and reply: "reply = \<lparr>shortLink = HOSTNAME @ ''/shorturls/'' @ code, expiryISO = t\<rparr>"
    and s': "s' = s\<lparr>urls := (urls s)(code \<mapsto>
                  \<lparr>url = u, createdAt = now2, expiry = Valid t, clicks_count = 0\<rparr>),
                clicks := (clicks s)(code \<mapsto> [])\<rparr>"
    by (rule create_Ok)
  from chooseDuration_Inr [OF d]
  have m: "d = minutes_of validity" "1 \<le> d" "validity = JUndefined \<or> validity = JInt d"
    by auto
  have tv: "t = now1 + d * 60000"
    if "localOffset z (now1 + utcOffset z now1 + minutes_of validity * 60000) = utcOffset z now1"
    using t that m(1) by (simp add: getExpiryDate_steady timeClip_def split: if_splits)
  from m show "validity = JUndefined \<or> (\<exists>n\<ge>1. validity = JInt n)" by auto
  show "minutes_of validity = 30" if "validity = JUndefined" using that by simp
  let ?e = "\<lparr>url = u, createdAt = now2, expiry = Valid t, clicks_count = 0\<rparr>"
  from reply s' tv m(1)
  show "\<exists>code e. shortLink reply = HOSTNAME @ ''/shorturls/'' @ code
          \<and> urls s' code = Some e
          \<and> createdAt e = now2
          \<and> expiry e = Valid (expiryISO reply)
          \<and> (localOffset z (now1 + utcOffset z now1 + minutes_of validity * 60000)
                = utcOffset z now1 \<longrightarrow>
              expiryISO reply = now1 + minutes_of validity * 60000
              \<and> (now2 = now1 \<longrightarrow>
                    expiry e = Valid (createdAt e + minutes_of validity * 60000))
              \<and> (now2 - now1 < minutes_of validity * 60000 \<longrightarrow>
                    createdAt e < expiryISO reply))"
    by (intro exI [of _ code] exI [of _ ?e]) auto
qed

theorem create_validity_and_expiry_witness:
  "create utc sample_isUri (JStr sample_url) (JInt 0) (Some ''abcd'') [] 7 8 sample_store
     = Some (Failed InvalidValidity, sample_store)
   \<and> create utc sample_isUri (JStr sample_url) JUndefined (Some ''abcd'') [] 7 7 initial
     = Some (Ok \<lparr>shortLink = ''http://localhost:4000/shorturls/abcd'', expiryISO = 1800007\<rparr>,
             \<lparr>urls = [''abcd'' \<mapsto> \<lparr>url = JStr sample_url, createdAt = 7, expiry = Valid 1800007,
                                       clicks_count = 0\<rparr>],
              clicks = [''abcd'' \<mapsto> []]\<rparr>)
   \<and> localOffset utc (7 + utcOffset utc 7 + minutes_of JUndefined * 60000) = utcOffset utc 7
   \<and> (1800007 :: int) = 7 + minutes_of JUndefined * 60000"
proof -
  let ?reply = "\<lparr>shortLink = ''http://localhost:4000/shorturls/abcd'', expiryISO = 1800007\<rparr>"
  let ?s' = "\<lparr>urls = [''abcd'' \<mapsto> \<lparr>url = JStr sample_url, createdAt = 7, expiry = Valid 1800007,
                                       clicks_count = 0\<rparr>],
              clicks = [''abcd'' \<mapsto> []]\<rparr>"
  have v: "isValidShortcode ''abcd''"
    by (simp add: isValidShortcode_def alnum_def)
  have f: "getProp (urls sample_store) ''abcd'' = None"
    by (simp add: getProp_def sample_store_def objectPrototypeKeys_def)
  have u: "jtruthy (JStr sample_url)" "sample_isUri (JStr sample_url) = Accepted"
    by (simp_all add: sample_url_def)
  have "\<exists>r s'. create utc sample_isUri (JStr sample_url) (JInt 0) (Some ''abcd'') [] 7 8 sample_store
                 = Some (r, s')"
    using v f by (simp add: create_def chooseShortcode_def sample_url_def)
  then obtain r s' where
    c: "create utc sample_isUri (JStr sample_url) (JInt 0) (Some ''abcd'') [] 7 8 sample_store
          = Some (r, s')"
    by blast
  from create_validity_and_expiry [OF c] v f u
  have "s' = sample_store \<and> r = Failed InvalidValidity"
    by simp
  with c have a: "create utc sample_isUri (JStr sample_url) (JInt 0) (Some ''abcd'') [] 7 8 sample_store
                    = Some (Failed InvalidValidity, sample_store)"
    by simp
  have b: "create utc sample_isUri (JStr sample_url) JUndefined (Some ''abcd'') [] 7 7 initial
             = Some (Ok ?reply, ?s')"
    by (simp add: create_def chooseShortcode_def isValidShortcode_def alnum_def getProp_def
        objectPrototypeKeys_def getExpiryDate_utc timeClip_def maxTime_def HOSTNAME_def
        initial_def sample_url_def)
  have steady: "localOffset utc (7 + utcOffset utc 7 + minutes_of JUndefined * 60000)
                  = utcOffset utc 7"
    by (simp add: utc_def)
  from create_validity_and_expiry [OF b] steady
  have "expiryISO ?reply = 7 + minutes_of JUndefined * 60000"
    by blast
  with a b steady show ?thesis by simp
qed

subsection \<open>Interleaved requests\<close>

text \<open>
  Whatever the schedule, two requests in flight stay in one of the five situations of
  \<open>in_flight\<close>; so when both are answered, the answers and the store are those of
  serving one request after the other, in one of the two orders.
\<close>

lemma turn_two:
  assumes "turn i ([t1, t2], st) = Some cfg'"
  shows "(i = 0 \<and> (\<exists>t st'. advance t1 st = Some (t, st') \<and> cfg' = ([t, t2], st')))
         \<or> (i = 1 \<and> (\<exists>t st'. advance t2 st = Some (t, st') \<and> cfg' = ([t1, t], st')))
         \<or> (2 \<le> i \<and> cfg' = ([t1, t2], st))"
proof -
  consider "i = 0" | "i = 1" | "2 \<le> i" by linarith
  then show ?thesis
    using assms by cases (auto split: option.splits)
qed

lemma advance_began:
  assumes "began r t" and "advance t st = Some (t', st')"
  shows "began r t' \<and> st' = st"
  using assms by (auto simp: began_def)

lemma advance_arrived:
  assumes "advance (Arrived q) st = Some (t', st')"
  obtains r where "start q st = Some (r, st')" and "began r t'"
  using assms by (auto simp: began_def split: option.splits)

lemma turn_in_flight:
  assumes "in_flight q1 q2 s cfg" and "turn i cfg = Some cfg'"
  shows "in_flight q1 q2 s cfg'"
proof -
  from assms(1) obtain t1 t2 st where cfg: "cfg = ([t1, t2], st)"
    and phases:
      "(t1 = Arrived q1 \<and> t2 = Arrived q2 \<and> st = s)
       \<or> (\<exists>r1. start q1 s = Some (r1, st) \<and> began r1 t1 \<and> t2 = Arrived q2)
       \<or> (\<exists>r2. start q2 s = Some (r2, st) \<and> t1 = Arrived q1 \<and> began r2 t2)
       \<or> (\<exists>r1 r2. serial q1 q2 s = Some (r1, r2, st) \<and> began r1 t1 \<and> began r2 t2)
       \<or> (\<exists>r1 r2. serial q2 q1 s = Some (r2, r1, st) \<and> began r1 t1 \<and> began r2 t2)"
    unfolding in_flight_def by blast
  from turn_two [OF assms(2) [unfolded cfg]]
  consider (first) t st' where "advance t1 st = Some (t, st')" "cfg' = ([t, t2], st')"
    | (second) t st' where "advance t2 st = Some (t, st')" "cfg' = ([t1, t], st')"
    | (idle) "cfg' = ([t1, t2], st)"
    by blast
  then show ?thesis
  proof cases
    case idle
    with assms(1) cfg show ?thesis by simp
  next
    case first
    from phases show ?thesis
    proof (elim disjE exE conjE)
      assume a: "t1 = Arrived q1" "t2 = Arrived q2" "st = s"
      with first(1) have "advance (Arrived q1) s = Some (t, st')" by simp
      then obtain r where "start q1 s = Some (r, st')" "began r t"
        by (rule advance_arrived)
      with a first(2) show ?thesis unfolding in_flight_def by blast
    next
      fix r1 assume a: "start q1 s = Some (r1, st)" "began r1 t1" "t2 = Arrived q2"
      from advance_began [OF a(2) first(1)] a first(2) show ?thesis
        unfolding in_flight_def by blast
    next
      fix r2 assume a: "start q2 s = Some (r2, st)" "t1 = Arrived q1" "began r2 t2"
      with first(1) have "advance (Arrived q1) st = Some (t, st')" by simp
      then obtain r where "start q1 st = Some (r, st')" "began r t"
        by (rule advance_arrived)
      with a have "serial q2 q1 s = Some (r2, r, st')" "began r t" "began r2 t2"
        by (simp_all add: serial_def)
      with first(2) show ?thesis unfolding in_flight_def by blast
    next
      fix r1 r2 assume a: "serial q1 q2 s = Some (r1, r2, st)" "began r1 t1" "began r2 t2"
      from advance_began [OF a(2) first(1)] a first(2) show ?thesis
        unfolding in_flight_def by blast
    next
      fix r1 r2 assume a: "serial q2 q1 s = Some (r2, r1, st)" "began r1 t1" "began r2 t2"
      from advance_began [OF a(2) first(1)] a first(2) show ?thesis
        unfolding in_flight_def by blast
    qed
  next
    case second
    from phases show ?thesis
    proof (elim disjE exE conjE)
      assume a: "t1 = Arrived q1" "t2 = Arrived q2" "st = s"
      with second(1) have "advance (Arrived q2) s = Some (t, st')" by simp
      then obtain r where "start q2 s = Some (r, st')" "began r t"
        by (rule advance_arrived)
      with a second(2) show ?thesis unfolding in_flight_def by blast
    next
      fix r1 assume a: "start q1 s = Some (r1, st)" "began r1 t1" "t2 = Arrived q2"
      with second(1) have "advance (Arrived q2) st = Some (t, st')" by simp
      then obtain r where "start q2 st = Some (r, st')" "began r t"
        by (rule advance_arrived)
      with a have "serial q1 q2 s = Some (r1, r, st')" "began r1 t1" "began r t"
        by (simp_all add: serial_def)
      with second(2) show ?thesis unfolding in_flight_def by blast
    next
      fix r2 assume a: "start q2 s = Some (r2, st)" "t1 = Arrived q1" "began r2 t2"
      from advance_began [OF a(3) second(1)] a second(2) show ?thesis
        unfolding in_flight_def by blast
    next
      fix r1 r2 assume a: "serial q1 q2 s = Some (r1, r2, st)" "began r1 t1" "began r2 t2"
      from advance_began [OF a(3) second(1)] a second(2) show ?thesis
        unfolding in_flight_def by blast
    next
      fix r1 r2 assume a: "serial q2 q1 s = Some (r2, r1, st)" "began r1 t1" "began r2 t2"
      from advance_began [OF a(3) second(1)] a second(2) show ?thesis
        unfolding in_flight_def by blast
    qed
  qed
qed

lemma run_in_flight:
  assumes "in_flight q1 q2 s cfg" and "run sched cfg = Some cfg'"
  shows "in_flight q1 q2 s cfg'"
  using assms
proof (induction sched arbitrary: cfg)
  case Nil
  then show ?case by simp
next
  case (Cons i sched)
  from Cons.prems(2) obtain cfg1 where "turn i cfg = Some cfg1" "run sched cfg1 = Some cfg'"
    by (auto split: option.splits)
  with Cons.IH turn_in_flight [OF Cons.prems(1)] show ?case by blast
qed

lemma serializable:
  assumes "run sched ([Arrived q1, Arrived q2], s) = Some ([Answered r1, Answered r2], s')"
  shows "serial q1 q2 s = Some (r1, r2, s') \<or> serial q2 q1 s = Some (r2, r1, s')"
proof -
  have "in_flight q1 q2 s ([Arrived q1, Arrived q2], s)"
    by (simp add: in_flight_def)
  from run_in_flight [OF this assms] show ?thesis
    by (auto simp: in_flight_def began_def)
qed

lemma store_eqI:
  fixes s1 s2 :: store
  assumes "urls s1 = urls s2" and "clicks s1 = clicks s2"
  shows "s1 = s2"
  using assms by simp

lemma create_after_create:
  assumes "create z1 isUri1 u1 v1 (Some code) d1 a1 b1 s = Some (Ok x1, s1)" and "code \<noteq> []"
    and "create z2 isUri2 u2 v2 (Some code) d2 a2 b2 s = Some (Ok x2, s2)"
  shows "create z2 isUri2 u2 v2 (Some code) d2 a2 b2 s1 = Some (Failed ShortcodeConflict, s1)"
proof -
  from assms(1,2) obtain t1 where
    s1: "s1 = s\<lparr>urls := (urls s)(code \<mapsto>
                  \<lparr>url = u1, createdAt = b1, expiry = Valid t1, clicks_count = 0\<rparr>),
                clicks := (clicks s)(code \<mapsto> [])\<rparr>"
    by (rule create_custom_Ok)
  from assms(3,2) have
    u2: "jtruthy u2" "isUri2 u2 = Accepted" "isValidShortcode code"
    by (auto elim: create_custom_Ok)
  from s1 have "getProp (urls s1) code \<noteq> None"
    by (simp add: getProp_def)
  with u2 assms(2) show ?thesis
    by (simp add: create_custom_conflict)
qed

lemma serial_creates:
  assumes "create z1 isUri1 u1 v1 (Some code) d1 a1 b1 s = Some (Ok x1, s1)" and "code \<noteq> []"
    and "create z2 isUri2 u2 v2 (Some code) d2 a2 b2 s = Some (Ok x2, s2)"
  shows "serial (Create z1 isUri1 u1 v1 (Some code) d1 a1 b1) (Create z2 isUri2 u2 v2 (Some code) d2 a2 b2) s
           = Some (Created (Ok x1), Created (Failed ShortcodeConflict), s1)"
  using assms(1) create_after_create [OF assms] by (simp add: serial_def)

lemma serial_resolves:
  assumes "urls s k = Some e" and "clicks s k = Some evs"
    and "\<not> date_lt (Some (expiry e)) a1" and "\<not> date_lt (Some (expiry e)) a2"
  shows "serial (Resolve k ref1 ip1 a1 b1) (Resolve k ref2 ip2 a2 b2) s
           = Some (Resolved (Ok (Some (url e))), Resolved (Ok (Some (url e))),
                   s\<lparr>urls := (urls s)(k \<mapsto> e\<lparr>clicks_count := clicks_count e + 2\<rparr>),
                     clicks := (clicks s)(k \<mapsto>
                       evs @ [click_of (ref1, ip1, a1, b1), click_of (ref2, ip2, a2, b2)])\<rparr>)"
proof -
  let ?e1 = "e\<lparr>clicks_count := clicks_count e + 1\<rparr>"
  let ?evs1 = "evs @ [click_of (ref1, ip1, a1, b1)]"
  let ?s1 = "s\<lparr>urls := (urls s)(k \<mapsto> ?e1), clicks := (clicks s)(k \<mapsto> ?evs1)\<rparr>"
  have 1: "resolve k ref1 ip1 a1 b1 s = (Ok (Some (url e)), ?s1)"
    by (rule resolve_live [OF assms(1,2,3)])
  let ?s2 = "s\<lparr>urls := (urls s)(k \<mapsto> e\<lparr>clicks_count := clicks_count e + 2\<rparr>),
               clicks := (clicks s)(k \<mapsto>
                 evs @ [click_of (ref1, ip1, a1, b1), click_of (ref2, ip2, a2, b2)])\<rparr>"
  have "urls ?s1 k = Some ?e1" and "clicks ?s1 k = Some ?evs1"
    and "\<not> date_lt (Some (expiry ?e1)) a2"
    using assms(4) by simp_all
  from resolve_live [OF this, of ref2 ip2 b2]
  have "resolve k ref2 ip2 a2 b2 ?s1 =
          (Ok (Some (url e)),
           ?s1\<lparr>urls := (urls ?s1)(k \<mapsto> ?e1\<lparr>clicks_count := clicks_count ?e1 + 1\<rparr>),
               clicks := (clicks ?s1)(k \<mapsto> ?evs1 @ [click_of (ref2, ip2, a2, b2)])\<rparr>)"
    by simp
  moreover
  have "?s1\<lparr>urls := (urls ?s1)(k \<mapsto> ?e1\<lparr>clicks_count := clicks_count ?e1 + 1\<rparr>),
            clicks := (clicks ?s1)(k \<mapsto> ?evs1 @ [click_of (ref2, ip2, a2, b2)])\<rparr> = ?s2"
    by (rule store_eqI) simp_all
  ultimately have 2: "resolve k ref2 ip2 a2 b2 ?s1 = (Ok (Some (url e)), ?s2)"
    by (simp only:)
  from 1 2 show ?thesis by (simp add: serial_def)
qed

text \<open>
  C9. Take two requests in flight at once and any schedule that answers both. If both
  are creates with the same custom shortcode, each of which would be answered 201 when
  served alone, then exactly one is answered 201, the other ShortcodeConflict, and the
  store is the one the winner leaves. If both are resolves of one shortcode whose entry
  is not expired at either reading, both redirect, the counter has gone up by two, and
  the click list has grown by their two clicks, in the order in which they were served.
\<close>

theorem concurrent_requests_atomic:
  "(run sched ([Arrived (Create z1 isUri1 u1 v1 (Some code) d1 a1 b1),
                 Arrived (Create z2 isUri2 u2 v2 (Some code) d2 a2 b2)], s)
      = Some ([Answered r1, Answered r2], s')
    \<and> code \<noteq> []
    \<and> create z1 isUri1 u1 v1 (Some code) d1 a1 b1 s = Some (Ok x1, s1)
    \<and> create z2 isUri2 u2 v2 (Some code) d2 a2 b2 s = Some (Ok x2, s2)
    \<longrightarrow> (r1 = Created (Ok x1) \<and> r2 = Created (Failed ShortcodeConflict) \<and> s' = s1)
        \<or> (r1 = Created (Failed ShortcodeConflict) \<and> r2 = Created (Ok x2) \<and> s' = s2))
   \<and> (run sched ([Arrived (Resolve k ref1 ip1 a1 b1), Arrived (Resolve k ref2 ip2 a2 b2)], s)
         = Some ([Answered r1, Answered r2], s')
       \<and> reachable s \<and> urls s k = Some e
       \<and> \<not> date_lt (Some (expiry e)) a1 \<and> \<not> date_lt (Some (expiry e)) a2
       \<longrightarrow> r1 = Resolved (Ok (Some (url e))) \<and> r2 = Resolved (Ok (Some (url e)))
           \<and> urls s' k = Some (e\<lparr>clicks_count := clicks_count e + 2\<rparr>)
           \<and> (\<exists>evs. clicks s k = Some evs \<and> length evs = clicks_count e
                 \<and> (clicks s' k
                       = Some (evs @ [click_of (ref1, ip1, a1, b1), click_of (ref2, ip2, a2, b2)])
                     \<or> clicks s' k
                       = Some (evs @ [click_of (ref2, ip2, a2, b2), click_of (ref1, ip1, a1, b1)]))))"
proof (rule conjI; rule impI; elim conjE)
  let ?q1 = "Create z1 isUri1 u1 v1 (Some code) d1 a1 b1"
  let ?q2 = "Create z2 isUri2 u2 v2 (Some code) d2 a2 b2"
  assume run: "run sched ([Arrived ?q1, Arrived ?q2], s) = Some ([Answered r1, Answered r2], s')"
    and code: "code \<noteq> []"
    and c1: "create z1 isUri1 u1 v1 (Some code) d1 a1 b1 s = Some (Ok x1, s1)"
    and c2: "create z2 isUri2 u2 v2 (Some code) d2 a2 b2 s = Some (Ok x2, s2)"
  from serializable [OF run] serial_creates [OF c1 code c2] serial_creates [OF c2 code c1]
  show "(r1 = Created (Ok x1) \<and> r2 = Created (Failed ShortcodeConflict) \<and> s' = s1)
        \<or> (r1 = Created (Failed ShortcodeConflict) \<and> r2 = Created (Ok x2) \<and> s' = s2)"
    by auto
next
  let ?q1 = "Resolve k ref1 ip1 a1 b1"
  let ?q2 = "Resolve k ref2 ip2 a2 b2"
  assume run: "run sched ([Arrived ?q1, Arrived ?q2], s) = Some ([Answered r1, Answered r2], s')"
    and s: "reachable s" "urls s k = Some e"
    and live: "\<not> date_lt (Some (expiry e)) a1" "\<not> date_lt (Some (expiry e)) a2"
  from s obtain evs where evs: "clicks s k = Some evs" "length evs = clicks_count e"
    by (rule reachable_ledger)
  from serializable [OF run]
    serial_resolves [OF s(2) evs(1) live, of ref1 ip1 b1 ref2 ip2 b2]
    serial_resolves [OF s(2) evs(1) live(2,1), of ref2 ip2 b2 ref1 ip1 b1]
  have "r1 = Resolved (Ok (Some (url e))) \<and> r2 = Resolved (Ok (Some (url e)))
        \<and> urls s' k = Some (e\<lparr>clicks_count := clicks_count e + 2\<rparr>)
        \<and> (clicks s' k
              = Some (evs @ [click_of (ref1, ip1, a1, b1), click_of (ref2, ip2, a2, b2)])
            \<or> clicks s' k
              = Some (evs @ [click_of (ref2, ip2, a2, b2), click_of (ref1, ip1, a1, b1)]))"
    by auto
  with evs
  show "r1 = Resolved (Ok (Some (url e))) \<and> r2 = Resolved (Ok (Some (url e)))
        \<and> urls s' k = Some (e\<lparr>clicks_count := clicks_count e + 2\<rparr>)
        \<and> (\<exists>evs. clicks s k = Some evs \<and> length evs = clicks_count e
              \<and> (clicks s' k
                    = Some (evs @ [click_of (ref1, ip1, a1, b1), click_of (ref2, ip2, a2, b2)])
                  \<or> clicks s' k
                    = Some (evs @ [click_of (ref2, ip2, a2, b2), click_of (ref1, ip1, a1, b1)])))"
    by blast
qed

theorem concurrent_requests_atomic_witness:
  "run [0, 1, 1, 0]
     ([Arrived (Create utc sample_isUri (JStr sample_url) (JInt 1) (Some ''abc123'') [] 0 0),
       Arrived (Create utc sample_isUri (JStr sample_url) (JInt 2) (Some ''abc123'') [] 3 4)],
      initial)
     = Some ([Answered (Created (Ok \<lparr>shortLink = ''http://localhost:4000/shorturls/abc123'',
                                        expiryISO = 60000\<rparr>)),
              Answered (Created (Failed ShortcodeConflict))], sample_store)
   \<and> run [1, 0, 0, 1]
       ([Arrived (Resolve ''abc123'' None ''203.0.113.7'' 10 11),
         Arrived (Resolve ''abc123'' (Some ''https://news.example/'') ''198.51.100.2'' 8 9)],
        sample_store)
     = Some ([Answered (Resolved (Ok (Some (JStr sample_url)))), Answered (Resolved (Ok (Some (JStr sample_url))))],
             \<lparr>urls = [''abc123'' \<mapsto> sample_entry\<lparr>clicks_count := 2\<rparr>],
              clicks = [''abc123'' \<mapsto>
                [\<lparr>timestamp = 9, referrer = Some ''https://news.example/'', ip = ''198.51.100.2''\<rparr>,
                 \<lparr>timestamp = 11, referrer = None, ip = ''203.0.113.7''\<rparr>]]\<rparr>)
   \<and> reachable sample_store
   \<and> urls sample_store ''abc123'' = Some sample_entry
   \<and> map_option clicks_count
        (urls \<lparr>urls = [''abc123'' \<mapsto> sample_entry\<lparr>clicks_count := 2\<rparr>],
               clicks = [''abc123'' \<mapsto>
                [\<lparr>timestamp = 9, referrer = Some ''https://news.example/'', ip = ''198.51.100.2''\<rparr>,
                 \<lparr>timestamp = 11, referrer = None, ip = ''203.0.113.7''\<rparr>]]\<rparr> ''abc123'')
       = Some (clicks_count sample_entry + 2)"
proof -
  let ?isUri = sample_isUri
  let ?c1 = "Create utc ?isUri (JStr sample_url) (JInt 1) (Some ''abc123'') [] 0 0"
  let ?c2 = "Create utc ?isUri (JStr sample_url) (JInt 2) (Some ''abc123'') [] 3 4"
  let ?x1 = "\<lparr>shortLink = ''http://localhost:4000/shorturls/abc123'', expiryISO = 60000\<rparr>"
  let ?x2 = "\<lparr>shortLink = ''http://localhost:4000/shorturls/abc123'', expiryISO = 120003\<rparr>"
  let ?s2 = "\<lparr>urls = [''abc123'' \<mapsto> \<lparr>url = JStr sample_url, createdAt = 4, expiry = Valid 120003,
                                          clicks_count = 0\<rparr>],
              clicks = [''abc123'' \<mapsto> []]\<rparr>"
  let ?q1 = "Resolve ''abc123'' None ''203.0.113.7'' 10 11"
  let ?q2 = "Resolve ''abc123'' (Some ''https://news.example/'') ''198.51.100.2'' 8 9"
  let ?s' = "\<lparr>urls = [''abc123'' \<mapsto> sample_entry\<lparr>clicks_count := 2\<rparr>],
              clicks = [''abc123'' \<mapsto>
                [\<lparr>timestamp = 9, referrer = Some ''https://news.example/'', ip = ''198.51.100.2''\<rparr>,
                 \<lparr>timestamp = 11, referrer = None, ip = ''203.0.113.7''\<rparr>]]\<rparr>"
  have c2: "create utc ?isUri (JStr sample_url) (JInt 2) (Some ''abc123'') [] 3 4 initial
              = Some (Ok ?x2, ?s2)"
    by (simp add: create_def chooseShortcode_def isValidShortcode_def alnum_def getProp_def
        objectPrototypeKeys_def getExpiryDate_utc timeClip_def maxTime_def HOSTNAME_def
        initial_def sample_url_def)
  have conflict: "create utc ?isUri (JStr sample_url) (JInt 2) (Some ''abc123'') [] 3 4 sample_store
              = Some (Failed ShortcodeConflict, sample_store)"
    by (simp add: create_def chooseShortcode_def isValidShortcode_def alnum_def getProp_def
        sample_store_def sample_url_def)
  have r1: "run [0, 1, 1, 0] ([Arrived ?c1, Arrived ?c2], initial)
              = Some ([Answered (Created (Ok ?x1)), Answered (Created (Failed ShortcodeConflict))],
                      sample_store)"
    by (simp add: sample_create conflict)
  have h: "urls sample_store ''abc123'' = Some sample_entry"
    by (simp add: sample_store_def)
  have live: "\<not> date_lt (Some (expiry sample_entry)) 10" "\<not> date_lt (Some (expiry sample_entry)) 8"
    by (simp_all add: sample_entry_def)
  have r2: "run [1, 0, 0, 1] ([Arrived ?q1, Arrived ?q2], sample_store)
              = Some ([Answered (Resolved (Ok (Some (JStr sample_url)))),
                       Answered (Resolved (Ok (Some (JStr sample_url))))], ?s')"
    by (simp add: resolve_def getProp_def sample_store_def sample_entry_def Let_def
        numeral_2_eq_2)
  from concurrent_requests_atomic [where sched = "[1, 0, 0, 1]"
      and ?r1.0 = "Resolved (Ok (Some (JStr sample_url)))" and ?r2.0 = "Resolved (Ok (Some (JStr sample_url)))"
      and s' = ?s' and k = "''abc123''" and ?ref1.0 = None and ?ip1.0 = "''203.0.113.7''"
      and ?a1.0 = 10 and ?b1.0 = 11 and ?ref2.0 = "Some ''https://news.example/''"
      and ?ip2.0 = "''198.51.100.2''" and ?a2.0 = 8 and ?b2.0 = 9
      and s = sample_store and e = sample_entry]
    r2 sample_reachable h live
  have "urls ?s' ''abc123'' = Some (sample_entry\<lparr>clicks_count := clicks_count sample_entry + 2\<rparr>)"
    by blast
  then have "map_option clicks_count (urls ?s' ''abc123'') = Some (clicks_count sample_entry + 2)"
    by simp
  with r1 r2 sample_reachable h show ?thesis by simp
qed

end
